theory Spec2Isabelle
  imports Complex_Main "HOL-Library.Word"
begin

section \<open>The C++ type double\<close>

text \<open>
  Every value of type \<^verbatim>\<open>double\<close> in \<^verbatim>\<open>tennis_analyzer.cpp\<close> is a value of the
  datatype below: a finite number, one of the two infinities, or NaN.  The special values
  follow the rules of IEEE 754 (a comparison with NaN is false, a nonzero number divided
  by zero is an infinity, \<open>0 / 0\<close> is NaN, and so on).

  The result of an arithmetic operation on finite numbers is the exact real result passed
  through a rounding function \<open>rnd\<close>, which every arithmetic function takes as its first
  argument and which returns a double: the rounded number, or an infinity when the result
  overflows.  With \<open>exact\<close> the arithmetic is that of the real numbers, with no rounding and
  no overflow; \<open>binary64\<close> (defined further down) is round-to-nearest, ties-to-even, on the
  53 bit significand of the hardware format, with overflow to an infinity from \<open>2^1024\<close> on.
  One thing is left out: there is one zero (no \<open>-0.0\<close>; the only divisors of the program that
  can be zero are the results of an addition or of a conversion from an unsigned size, which
  are \<open>+0.0\<close>).
\<close>

datatype double = Finite real | PosInf | NegInf | NaN

type_synonym rounding = "real \<Rightarrow> double"

definition exact :: rounding where
  "exact x = Finite x"

fun is_zero :: "double \<Rightarrow> bool" where
  "is_zero (Finite a) = (a = 0)"
| "is_zero _ = False"

fun is_neg :: "double \<Rightarrow> bool" where
  "is_neg (Finite a) = (a < 0)"
| "is_neg NegInf = True"
| "is_neg _ = False"

definition signed_inf :: "bool \<Rightarrow> double" where
  "signed_inf negative = (if negative then NegInf else PosInf)"

fun dneg :: "double \<Rightarrow> double" where
  "dneg (Finite a) = Finite (- a)"
| "dneg PosInf = NegInf"
| "dneg NegInf = PosInf"
| "dneg NaN = NaN"

fun dadd :: "rounding \<Rightarrow> double \<Rightarrow> double \<Rightarrow> double" where
  "dadd rnd (Finite a) (Finite b) = rnd (a + b)"
| "dadd rnd NaN _ = NaN"
| "dadd rnd _ NaN = NaN"
| "dadd rnd PosInf NegInf = NaN"
| "dadd rnd NegInf PosInf = NaN"
| "dadd rnd PosInf _ = PosInf"
| "dadd rnd NegInf _ = NegInf"
| "dadd rnd _ PosInf = PosInf"
| "dadd rnd _ NegInf = NegInf"

definition dsub :: "rounding \<Rightarrow> double \<Rightarrow> double \<Rightarrow> double" where
  "dsub rnd a b = dadd rnd a (dneg b)"

fun dmul :: "rounding \<Rightarrow> double \<Rightarrow> double \<Rightarrow> double" where
  "dmul rnd (Finite a) (Finite b) = rnd (a * b)"
| "dmul rnd NaN _ = NaN"
| "dmul rnd _ NaN = NaN"
| "dmul rnd a b = (if is_zero a \<or> is_zero b then NaN else signed_inf (is_neg a \<noteq> is_neg b))"

fun ddiv :: "rounding \<Rightarrow> double \<Rightarrow> double \<Rightarrow> double" where
  "ddiv rnd (Finite a) (Finite b) =
     (if b = 0 then (if a = 0 then NaN else signed_inf (a < 0)) else rnd (a / b))"
| "ddiv rnd NaN _ = NaN"
| "ddiv rnd _ NaN = NaN"
| "ddiv rnd (Finite a) _ = Finite 0"
| "ddiv rnd a (Finite b) = signed_inf (is_neg a \<noteq> (b < 0))"
| "ddiv rnd _ _ = NaN"

fun dsqrt :: "rounding \<Rightarrow> double \<Rightarrow> double" where
  "dsqrt rnd (Finite a) = (if a < 0 then NaN else rnd (sqrt a))"
| "dsqrt rnd PosInf = PosInf"
| "dsqrt rnd NegInf = NaN"
| "dsqrt rnd NaN = NaN"

fun dabs :: "double \<Rightarrow> double" where
  "dabs (Finite a) = Finite \<bar>a\<bar>"
| "dabs PosInf = PosInf"
| "dabs NegInf = PosInf"
| "dabs NaN = NaN"

text \<open>The comparisons \<^verbatim>\<open>a < b\<close> and \<^verbatim>\<open>a <= b\<close> of two doubles.\<close>

fun dlt :: "double \<Rightarrow> double \<Rightarrow> bool" where
  "dlt (Finite a) (Finite b) = (a < b)"
| "dlt NaN _ = False"
| "dlt _ NaN = False"
| "dlt _ NegInf = False"
| "dlt PosInf _ = False"
| "dlt _ _ = True"

fun dle :: "double \<Rightarrow> double \<Rightarrow> bool" where
  "dle (Finite a) (Finite b) = (a \<le> b)"
| "dle NaN _ = False"
| "dle _ NaN = False"
| "dle NegInf _ = True"
| "dle _ PosInf = True"
| "dle _ _ = False"

text \<open>
  \<^verbatim>\<open>std::min(a, b)\<close> is \<^verbatim>\<open>(b < a) ? b : a\<close> and \<^verbatim>\<open>std::max(a, b)\<close> is
  \<^verbatim>\<open>(a < b) ? b : a\<close>.
\<close>

definition std_min :: "double \<Rightarrow> double \<Rightarrow> double" where
  "std_min a b = (if dlt b a then b else a)"

definition std_max :: "double \<Rightarrow> double \<Rightarrow> double" where
  "std_max a b = (if dlt a b then b else a)"

text \<open>
  \<^verbatim>\<open>std::accumulate(first, last, init)\<close> adds the elements to \<open>init\<close> from left to
  right.
\<close>

definition accumulate :: "rounding \<Rightarrow> double \<Rightarrow> double list \<Rightarrow> double" where
  "accumulate rnd init xs = foldl (dadd rnd) init xs"

text \<open>
  Conversions to double: of a \<^verbatim>\<open>size_t\<close> (exact below \<open>2^53\<close>, which no vector
  reaches) and of a \<^verbatim>\<open>uint8_t\<close> (always exact).
\<close>

definition of_size :: "nat \<Rightarrow> double" where
  "of_size n = Finite (real n)"

definition of_uint8 :: "8 word \<Rightarrow> double" where
  "of_uint8 w = Finite (real (unat w))"

section \<open>The analyzer\<close>

text \<open>
  The constants of \<^verbatim>\<open>tennis_analyzer.cpp\<close>.  \<open>1e-9\<close> is not a binary fraction, so the
  constant is the rounded value of the literal (as are \<open>0.6\<close>, \<open>0.4\<close> and \<open>0.2\<close> further down).
\<close>

definition MIN_DURATION :: double where
  "MIN_DURATION = Finite 0"

definition MAX_DURATION :: double where
  "MAX_DURATION = Finite 86400"

definition MIN_INTENSITY :: "8 word" where
  "MIN_INTENSITY = 1"

definition MAX_INTENSITY :: "8 word" where
  "MAX_INTENSITY = 5"

definition EPSILON :: "rounding \<Rightarrow> double" where
  "EPSILON rnd = rnd (1 / 10 ^ 9)"

text \<open>
  The program throws \<^verbatim>\<open>std::invalid_argument\<close> at four places, told apart by the
  message; the first four constructors are these four messages (with the index the
  message prints).  \<open>OutOfBoundsRead\<close> stands for \<^verbatim>\<open>intensities[i]\<close> with \<open>i\<close> past
  the end of the vector, which C++ leaves undefined.
\<close>

datatype error =
    SizesDiffer
  | DurationOutOfRange nat
  | IntensityOutOfRange nat
  | RestSizesDiffer
  | OutOfBoundsRead

definition calculateTotalActiveTime :: "rounding \<Rightarrow> double list \<Rightarrow> double" where
  "calculateTotalActiveTime rnd durations =
     (if durations = [] then Finite 0 else accumulate rnd (Finite 0) durations)"

definition calculateWorkRestRatio ::
  "rounding \<Rightarrow> double list \<Rightarrow> double list \<Rightarrow> error + double" where
  "calculateWorkRestRatio rnd durations restDurations =
     (if durations = [] then Inr (Finite 0)
      else
        let totalWork = calculateTotalActiveTime rnd durations in
        case (if restDurations = [] then Inr totalWork
              else
                let expectedSize = length durations;
                    gapSize = (if length durations > 1 then length durations - 1 else 0)
                in if length restDurations \<noteq> expectedSize \<and> length restDurations \<noteq> gapSize
                   then Inl RestSizesDiffer
                   else Inr (accumulate rnd (Finite 0) restDurations))
        of Inl e \<Rightarrow> Inl e
         | Inr totalRest \<Rightarrow>
             if dlt totalRest (EPSILON rnd) then Inr PosInf
             else Inr (ddiv rnd totalWork totalRest))"

definition mean :: "rounding \<Rightarrow> double list \<Rightarrow> double" where
  "mean rnd values =
     (if values = [] then Finite 0
      else ddiv rnd (accumulate rnd (Finite 0) values) (of_size (length values)))"

definition standardDeviation :: "rounding \<Rightarrow> double list \<Rightarrow> double" where
  "standardDeviation rnd values =
     (if length values < 2 then Finite 0
      else
        let meanValue = mean rnd values;
            sumSquaredDiff =
              foldl (\<lambda>acc v. let diff = dsub rnd v meanValue in dadd rnd acc (dmul rnd diff diff))
                (Finite 0) values;
            variance = ddiv rnd sumSquaredDiff (of_size (length values - 1))
        in dsqrt rnd variance)"

definition coefficientOfVariation :: "rounding \<Rightarrow> double list \<Rightarrow> double" where
  "coefficientOfVariation rnd values =
     (if values = [] then Finite 0
      else
        let meanValue = mean rnd values in
        if dlt (dabs meanValue) (EPSILON rnd) then Finite 0
        else ddiv rnd (standardDeviation rnd values) meanValue)"

text \<open>
  In \<^verbatim>\<open>intensity - MIN_INTENSITY\<close> both operands are promoted to \<^verbatim>\<open>int\<close>, so the
  difference is \<open>-1\<close> for the intensity 0.
\<close>

definition normalizeIntensity :: "rounding \<Rightarrow> 8 word \<Rightarrow> double" where
  "normalizeIntensity rnd intensity =
     ddiv rnd (Finite (real_of_int (int (unat intensity) - int (unat MIN_INTENSITY))))
       (Finite (real_of_int (int (unat MAX_INTENSITY) - int (unat MIN_INTENSITY))))"

definition calculateConsistencyScore :: "rounding \<Rightarrow> double list \<Rightarrow> 8 word list \<Rightarrow> double" where
  "calculateConsistencyScore rnd durations intensities =
     (if length durations < 2 then Finite 1
      else
        let durationCV = coefficientOfVariation rnd durations;
            durationConsistency = ddiv rnd (Finite 1) (dadd rnd (Finite 1) durationCV);
            intensityDoubles = map of_uint8 intensities;
            intensityCV = coefficientOfVariation rnd intensityDoubles;
            intensityConsistency = ddiv rnd (Finite 1) (dadd rnd (Finite 1) intensityCV);
            consistency =
              dadd rnd (dmul rnd (rnd 0.6) durationConsistency)
                (dmul rnd (rnd 0.4) intensityConsistency)
        in std_max (Finite 0) (std_min (Finite 1) consistency))"

text \<open>
  The loop \<^verbatim>\<open>for (i = 0; i < durations.size(); ++i) acc += durations[i] * w(intensities[i])\<close>,
  which \<^verbatim>\<open>analyze\<close> runs with the conversion to double for \<open>w\<close> and
  \<^verbatim>\<open>calculateTrainingDensityScore\<close> with \<open>normalizeIntensity\<close>.  It reads the two vectors
  in step; where \<open>intensities\<close> is the shorter one, the read is out of bounds.
\<close>

fun weighted_sum ::
  "rounding \<Rightarrow> (8 word \<Rightarrow> double) \<Rightarrow> double \<Rightarrow> double list \<Rightarrow> 8 word list \<Rightarrow> error + double" where
  "weighted_sum rnd w acc [] intensities = Inr acc"
| "weighted_sum rnd w acc (d # durations) [] = Inl OutOfBoundsRead"
| "weighted_sum rnd w acc (d # durations) (i # intensities) =
     weighted_sum rnd w (dadd rnd acc (dmul rnd d (w i))) durations intensities"

definition calculateTrainingDensityScore ::
  "rounding \<Rightarrow> double list \<Rightarrow> 8 word list \<Rightarrow> error + double" where
  "calculateTrainingDensityScore rnd durations intensities =
     (if durations = [] then Inr (Finite 0)
      else
        let avgIntensity =
              ddiv rnd
                (foldl (\<lambda>acc intensity. dadd rnd acc (normalizeIntensity rnd intensity))
                   (Finite 0) intensities)
                (of_size (length intensities))
        in case weighted_sum rnd (normalizeIntensity rnd) (Finite 0) durations intensities of
             Inl e \<Rightarrow> Inl e
           | Inr totalWorkVolume \<Rightarrow>
               let avgDuration = mean rnd durations;
                   maxDuration = Finite 3600;
                   volumeComponent =
                     std_min (Finite 1)
                       (ddiv rnd totalWorkVolume (dmul rnd maxDuration (of_size (length durations))));
                   durationComponent =
                     (if dlt avgDuration (Finite 30) then ddiv rnd avgDuration (Finite 30)
                      else if dlt (Finite 1800) avgDuration then ddiv rnd (Finite 1800) avgDuration
                      else Finite 1);
                   density =
                     dadd rnd
                       (dadd rnd (dmul rnd (rnd 0.4) avgIntensity)
                          (dmul rnd (rnd 0.4) volumeComponent))
                       (dmul rnd (rnd 0.2) durationComponent)
               in Inr (std_max (Finite 0) (std_min (Finite 1) density)))"

text \<open>The two checking loops of \<^verbatim>\<open>validateInputs\<close>; \<open>i\<close> is the index of the head.\<close>

fun check_durations :: "nat \<Rightarrow> double list \<Rightarrow> error + unit" where
  "check_durations i [] = Inr ()"
| "check_durations i (d # durations) =
     (if dlt d MIN_DURATION \<or> dlt MAX_DURATION d then Inl (DurationOutOfRange i)
      else check_durations (Suc i) durations)"

fun check_intensities :: "nat \<Rightarrow> 8 word list \<Rightarrow> error + unit" where
  "check_intensities i [] = Inr ()"
| "check_intensities i (w # intensities) =
     (if w < MIN_INTENSITY \<or> w > MAX_INTENSITY then Inl (IntensityOutOfRange i)
      else check_intensities (Suc i) intensities)"

definition validateInputs :: "double list \<Rightarrow> 8 word list \<Rightarrow> error + unit" where
  "validateInputs durations intensities =
     (if length durations \<noteq> length intensities then Inl SizesDiffer
      else case check_durations 0 durations of
             Inl e \<Rightarrow> Inl e
           | Inr _ \<Rightarrow> check_intensities 0 intensities)"

record AnalysisResult =
  totalActiveTime :: double
  workRestRatio :: double
  consistencyScore :: double
  trainingDensityScore :: double
  averageIntensity :: double
  totalWorkVolume :: double
  totalSets :: nat

definition analyze ::
  "rounding \<Rightarrow> double list \<Rightarrow> 8 word list \<Rightarrow> double list \<Rightarrow> error + AnalysisResult" where
  "analyze rnd durations intensities restDurations =
     (case validateInputs durations intensities of
        Inl e \<Rightarrow> Inl e
      | Inr _ \<Rightarrow>
          let tat = calculateTotalActiveTime rnd durations in
          case calculateWorkRestRatio rnd durations restDurations of
            Inl e \<Rightarrow> Inl e
          | Inr wrr \<Rightarrow>
              let cs = calculateConsistencyScore rnd durations intensities in
              case calculateTrainingDensityScore rnd durations intensities of
                Inl e \<Rightarrow> Inl e
              | Inr tds \<Rightarrow>
                  let intensitySum =
                        foldl (\<lambda>acc intensity. dadd rnd acc (of_uint8 intensity)) (Finite 0) intensities;
                      avg = ddiv rnd intensitySum (of_size (length intensities))
                  in case weighted_sum rnd of_uint8 (Finite 0) durations intensities of
                       Inl e \<Rightarrow> Inl e
                     | Inr twv \<Rightarrow>
                         Inr \<lparr> totalActiveTime = tat, workRestRatio = wrr,
                               consistencyScore = cs, trainingDensityScore = tds,
                               averageIntensity = avg, totalWorkVolume = twv,
                               totalSets = length durations \<rparr>)"

section \<open>The error kinds of the specification\<close>

text \<open>
  The specification names two kinds of error.  A size mismatch is either of the two
  messages about vector sizes; a range error at index \<open>i\<close> is either of the two messages
  that print the index \<open>i\<close>.
\<close>

definition SizeMismatchError :: "error \<Rightarrow> bool" where
  "SizeMismatchError e = (e = SizesDiffer \<or> e = RestSizesDiffer)"

definition RangeError :: "nat \<Rightarrow> error \<Rightarrow> bool" where
  "RangeError i e = (e = DurationOutOfRange i \<or> e = IntensityOutOfRange i)"

section \<open>The input conditions of the specification\<close>

text \<open>
  A duration is inside \<open>[0, 86400]\<close> when it is a number between the two bounds, and outside
  when it is not: the infinities and NaN are outside.  The intensities are unsigned bytes.
\<close>

definition duration_inside :: "double \<Rightarrow> bool" where
  "duration_inside d = (case d of Finite r \<Rightarrow> 0 \<le> r \<and> r \<le> 86400 | _ \<Rightarrow> False)"

definition duration_outside :: "double \<Rightarrow> bool" where
  "duration_outside d = (\<not> duration_inside d)"

text \<open>
  The condition under which the first loop of \<^verbatim>\<open>validateInputs\<close> throws: one of its two
  comparisons is true.  Both are false for NaN.
\<close>

definition duration_refused :: "double \<Rightarrow> bool" where
  "duration_refused d = (dlt d MIN_DURATION \<or> dlt MAX_DURATION d)"

definition intensity_outside :: "8 word \<Rightarrow> bool" where
  "intensity_outside w = (unat w < 1 \<or> 5 < unat w)"

definition intensity_inside :: "8 word \<Rightarrow> bool" where
  "intensity_inside w = (1 \<le> unat w \<and> unat w \<le> 5)"

definition valid_input :: "double list \<Rightarrow> 8 word list \<Rightarrow> bool" where
  "valid_input durations intensities =
     (length durations = length intensities \<and> list_all duration_inside durations \<and>
      list_all intensity_inside intensities)"

section \<open>Rounding functions\<close>

text \<open>
  What the proofs that depend on the arithmetic ask of a rounding function: it is monotone
  (so it never returns NaN) and leaves zero alone.  Exact arithmetic and binary64 rounding
  are such functions.
\<close>

definition monotone_rounding :: "rounding \<Rightarrow> bool" where
  "monotone_rounding rnd = ((\<forall>x y. x \<le> y \<longrightarrow> dle (rnd x) (rnd y)) \<and> rnd 0 = Finite 0)"

section \<open>The formulas of the specification\<close>

text \<open>
  The formulas below are over the real numbers and do not use the definitions of the program.
  The sample standard deviation divides the squared deviations from the mean by \<open>n - 1\<close>,
  the population standard deviation by \<open>n\<close>.
\<close>

definition sample_standard_deviation :: "real list \<Rightarrow> real" where
  "sample_standard_deviation xs =
     (let m = sum_list xs / real (length xs)
      in sqrt (sum_list (map (\<lambda>x. (x - m)\<^sup>2) xs) / (real (length xs) - 1)))"

definition population_standard_deviation :: "real list \<Rightarrow> real" where
  "population_standard_deviation xs =
     (let m = sum_list xs / real (length xs)
      in sqrt (sum_list (map (\<lambda>x. (x - m)\<^sup>2) xs) / real (length xs)))"

text \<open>
  The coefficient of variation: the standard deviation (zero for fewer than two values)
  divided by the mean, and zero for no values or a mean within \<open>1e-9\<close> of zero.
\<close>

definition coefficient_of_variation :: "real list \<Rightarrow> real" where
  "coefficient_of_variation xs =
     (let m = sum_list xs / real (length xs)
      in if xs = [] \<or> \<bar>m\<bar> < 1 / 10 ^ 9 then 0
         else (if length xs < 2 then 0 else sample_standard_deviation xs) / m)"

text \<open>
  \<open>0.6 * (1 / (1 + CV(durations))) + 0.4 * (1 / (1 + CV(intensities)))\<close>, to be clamped to
  \<open>[0, 1]\<close>.
\<close>

definition consistency_formula :: "real list \<Rightarrow> real list \<Rightarrow> real" where
  "consistency_formula durations intensities =
     0.6 * (1 / (1 + coefficient_of_variation durations)) +
     0.4 * (1 / (1 + coefficient_of_variation intensities))"

section \<open>Rounding to binary64\<close>

text \<open>
  The hardware rounds the exact result of every operation to the nearest number with a 53 bit
  significand, and to the one with the even significand when two are equally near.
  \<open>round_to_grid u x\<close> is the multiple of the spacing \<open>u\<close> chosen in this way.
\<close>

definition round_to_grid :: "real \<Rightarrow> real \<Rightarrow> real" where
  "round_to_grid u x =
     (let q = \<lfloor>x / u\<rfloor>; r = x / u - of_int q
      in u * of_int (if r < 1 / 2 \<or> (r = 1 / 2 \<and> even q) then q else q + 1))"

text \<open>
  The exponent \<open>e\<close> of a positive number \<open>x\<close>, with \<open>2^e \<le> x < 2^(e+1)\<close>, found by halving or
  doubling.
\<close>

function binade :: "real \<Rightarrow> int" where
  "binade x =
     (if 2 \<le> x then binade (x / 2) + 1
      else if 0 < x \<and> x < 1 then binade (2 * x) - 1
      else 0)"
  by auto
termination
proof (relation "measure (\<lambda>x. if 2 \<le> x then nat \<lceil>x\<rceil> else if 0 < x \<and> x < 1 then nat \<lceil>1 / x\<rceil> else 0)")
  show "wf (measure (\<lambda>x. if 2 \<le> x then nat \<lceil>x\<rceil> else if 0 < x \<and> x < 1 then nat \<lceil>1 / x\<rceil> else 0))"
    by simp
next
  fix x :: real assume x: "2 \<le> x"
  have "\<lceil>x / 2\<rceil> < \<lceil>x\<rceil>" if "2 \<le> x / 2"
  proof -
    have "x / 2 \<le> x - 1" using x by simp
    then have "\<lceil>x / 2\<rceil> \<le> \<lceil>x - 1\<rceil>" by (rule ceiling_mono)
    then show ?thesis by simp
  qed
  moreover have "0 < \<lceil>x\<rceil>" using x by (simp add: ceiling_less_iff)
  ultimately show "(x / 2, x) \<in> measure (\<lambda>x. if 2 \<le> x then nat \<lceil>x\<rceil> else if 0 < x \<and> x < 1 then nat \<lceil>1 / x\<rceil> else 0)"
    using x by auto
next
  fix x :: real assume x: "\<not> 2 \<le> x" "0 < x \<and> x < 1"
  have "\<lceil>1 / (2 * x)\<rceil> < \<lceil>1 / x\<rceil>" if "2 * x < 1"
  proof -
    from that x have "2 < 1 / x" by (simp add: field_simps)
    then have "1 / (2 * x) \<le> 1 / x - 1" by (simp add: field_simps)
    then have "\<lceil>1 / (2 * x)\<rceil> \<le> \<lceil>1 / x - 1\<rceil>" by (rule ceiling_mono)
    then show ?thesis by simp
  qed
  moreover have "0 < \<lceil>1 / x\<rceil>" using x by (simp add: ceiling_less_iff)
  ultimately show "(2 * x, x) \<in> measure (\<lambda>x. if 2 \<le> x then nat \<lceil>x\<rceil> else if 0 < x \<and> x < 1 then nat \<lceil>1 / x\<rceil> else 0)"
    using x by auto
qed

text \<open>
  The spacing of the binary64 numbers around \<open>x\<close>: \<open>2^(e-52)\<close>, and \<open>2^(-1074)\<close> for the
  subnormal numbers below \<open>2^(-1022)\<close>.  Rounding is symmetric around zero.
\<close>

definition ulp :: "real \<Rightarrow> real" where
  "ulp x = 2 powi (max (binade \<bar>x\<bar>) (- 1022) - 52)"

definition round64 :: "real \<Rightarrow> real" where
  "round64 x = sgn x * round_to_grid (ulp x) \<bar>x\<bar>"

text \<open>
  The largest double is \<open>2^1024 - 2^971\<close>; a result that rounds to \<open>2^1024\<close> or beyond becomes an
  infinity of its sign.
\<close>

definition binary64 :: rounding where
  "binary64 x =
     (let r = round64 x in if 2 ^ 1024 \<le> \<bar>r\<bar> then signed_inf (r < 0) else Finite r)"

text \<open>A double that the rounding function leaves as it is (every double, for \<open>exact\<close>).\<close>

definition representable :: "rounding \<Rightarrow> double \<Rightarrow> bool" where
  "representable rnd d = (case d of Finite r \<Rightarrow> rnd r = Finite r | _ \<Rightarrow> True)"

section \<open>Properties of the binary64 rounding\<close>

text \<open>
  Rounding to binary64 is monotone, leaves zero and the natural numbers below \<open>2^53\<close> as
  they are, and commutes with negation.  As checks of the definition, \<open>0.1\<close> rounds to
  \<open>3602879701896397 / 2^55\<close>, the value of the double \<^verbatim>\<open>0x3FB999999999999A\<close>, and
  \<open>2^1023 + 2^1023\<close> overflows to positive infinity.
\<close>

declare binade.simps [simp del]

lemma round_to_grid_lower: "0 < u \<Longrightarrow> u * of_int \<lfloor>x / u\<rfloor> \<le> round_to_grid u x"
  by (simp add: round_to_grid_def Let_def)

lemma round_to_grid_upper: "0 < u \<Longrightarrow> round_to_grid u x \<le> u * of_int (\<lfloor>x / u\<rfloor> + 1)"
  by (simp add: round_to_grid_def Let_def)

lemma nearest_even_mono:
  fixes s t :: real
  assumes "s \<le> t" "\<lfloor>s\<rfloor> = \<lfloor>t\<rfloor>"
  shows "(if s - of_int \<lfloor>s\<rfloor> < 1 / 2 \<or> (s - of_int \<lfloor>s\<rfloor> = 1 / 2 \<and> even \<lfloor>s\<rfloor>) then \<lfloor>s\<rfloor> else \<lfloor>s\<rfloor> + 1)
       \<le> (if t - of_int \<lfloor>t\<rfloor> < 1 / 2 \<or> (t - of_int \<lfloor>t\<rfloor> = 1 / 2 \<and> even \<lfloor>t\<rfloor>) then \<lfloor>t\<rfloor> else \<lfloor>t\<rfloor> + 1)"
  using assms by auto

lemma round_to_grid_mono:
  assumes u: "0 < u" and xy: "x \<le> y"
  shows "round_to_grid u x \<le> round_to_grid u y"
proof -
  from u xy have d: "x / u \<le> y / u" by (simp add: divide_right_mono)
  then have q: "\<lfloor>x / u\<rfloor> \<le> \<lfloor>y / u\<rfloor>" by (rule floor_mono)
  show ?thesis
  proof (cases "\<lfloor>x / u\<rfloor> = \<lfloor>y / u\<rfloor>")
    case True
    from nearest_even_mono [OF d True] u show ?thesis
      unfolding round_to_grid_def Let_def
      by (simp only: mult_le_cancel_left_pos of_int_le_iff)
  next
    case False
    with q have "\<lfloor>x / u\<rfloor> + 1 \<le> \<lfloor>y / u\<rfloor>" by simp
    then have "(of_int (\<lfloor>x / u\<rfloor> + 1) :: real) \<le> of_int \<lfloor>y / u\<rfloor>" by (simp only: of_int_le_iff)
    with u have "u * of_int (\<lfloor>x / u\<rfloor> + 1) \<le> u * of_int \<lfloor>y / u\<rfloor>" by (simp only: mult_le_cancel_left_pos)
    with round_to_grid_upper [OF u, of x] round_to_grid_lower [OF u, of y] show ?thesis by linarith
  qed
qed

lemma round_to_grid_above:
  assumes u: "0 < u" and g: "of_int k * u \<le> y"
  shows "of_int k * u \<le> round_to_grid u y"
proof -
  from u g have "of_int k \<le> y / u" by (simp add: pos_le_divide_eq)
  then have "k \<le> \<lfloor>y / u\<rfloor>" by (simp add: le_floor_iff)
  then have "(of_int k :: real) \<le> of_int \<lfloor>y / u\<rfloor>" by (simp only: of_int_le_iff)
  with u have "u * of_int k \<le> u * of_int \<lfloor>y / u\<rfloor>" by (simp only: mult_le_cancel_left_pos)
  with round_to_grid_lower [OF u, of y] show ?thesis by (simp add: mult.commute)
qed

lemma round_to_grid_below:
  assumes u: "0 < u" and g: "x \<le> of_int k * u"
  shows "round_to_grid u x \<le> of_int k * u"
proof (cases "x / u = of_int k")
  case True
  then have "\<lfloor>x / u\<rfloor> = k" by simp
  with True show ?thesis by (simp add: round_to_grid_def Let_def)
next
  case False
  from u g have "x / u \<le> of_int k" by (simp add: pos_divide_le_eq)
  with False have "x / u < of_int k" by simp
  then have "\<lfloor>x / u\<rfloor> < k" by (simp add: floor_less_iff)
  then have "\<lfloor>x / u\<rfloor> + 1 \<le> k" by simp
  then have "(of_int (\<lfloor>x / u\<rfloor> + 1) :: real) \<le> of_int k" by (simp only: of_int_le_iff)
  with u have "u * of_int (\<lfloor>x / u\<rfloor> + 1) \<le> u * of_int k" by (simp only: mult_le_cancel_left_pos)
  with round_to_grid_upper [OF u, of x] show ?thesis by (simp add: mult.commute)
qed

lemma binade_bounds: "0 < x \<Longrightarrow> 2 powi binade x \<le> x \<and> x < 2 powi (binade x + 1)"
proof (induction x rule: binade.induct)
  case (1 x)
  show ?case
  proof (cases "2 \<le> x")
    case True
    then have b: "binade x = binade (x / 2) + 1" by (simp add: binade.simps)
    from True "1.IH"(1) "1.prems" have "2 powi binade (x / 2) \<le> x / 2 \<and> x / 2 < 2 powi (binade (x / 2) + 1)"
      by simp
    then show ?thesis unfolding b by (simp add: power_int_add)
  next
    case False
    show ?thesis
    proof (cases "x < 1")
      case True
      with False "1.prems" have b: "binade x = binade (2 * x) - 1" by (simp add: binade.simps)
      from True False "1.IH"(2) "1.prems" have "2 powi binade (2 * x) \<le> 2 * x \<and> 2 * x < 2 powi (binade (2 * x) + 1)"
        by simp
      then show ?thesis unfolding b by (simp add: power_int_add power_int_diff)
    next
      case b: False
      with False have "binade x = 0" by (simp add: binade.simps)
      with False b show ?thesis by simp
    qed
  qed
qed

lemma binade_mono:
  assumes "0 < x" "x \<le> y"
  shows "binade x \<le> binade y"
proof -
  from assms binade_bounds [of x] binade_bounds [of y]
  have "(2::real) powi binade x < 2 powi (binade y + 1)" by simp
  moreover have "(2::real) powi (binade y + 1) \<le> 2 powi binade x" if "binade y + 1 \<le> binade x"
    using that by (intro power_int_increasing) simp_all
  ultimately show ?thesis by fastforce
qed

lemma ulp_pos: "0 < ulp x"
  by (simp add: ulp_def)

lemma round64_zero: "round64 0 = 0"
  by (simp add: round64_def)

lemma round64_minus: "round64 (- x) = - round64 x"
  by (simp add: round64_def ulp_def sgn_minus)

lemma round64_pos: "0 < x \<Longrightarrow> round64 x = round_to_grid (ulp x) x"
  by (simp add: round64_def)

lemma round64_nonneg:
  assumes "0 \<le> x"
  shows "0 \<le> round64 x"
proof (cases "x = 0")
  case True
  then show ?thesis by (simp add: round64_zero)
next
  case False
  with assms have x: "0 < x" by simp
  with ulp_pos [of x] have "0 \<le> x / ulp x" by simp
  then have "0 \<le> \<lfloor>x / ulp x\<rfloor>" by simp
  then have "0 \<le> ulp x * of_int \<lfloor>x / ulp x\<rfloor>" using ulp_pos [of x] by simp
  with round_to_grid_lower [OF ulp_pos, of x x] show ?thesis
    by (simp add: round64_pos [OF x])
qed

lemma power_int_as_multiple:
  assumes "m \<le> n"
  shows "(2::real) powi n = of_int (2 ^ nat (n - m)) * 2 powi m"
proof -
  have "(2::real) powi n = 2 powi (n - m) * 2 powi m"
    by (simp flip: power_int_add)
  also have "(2::real) powi (n - m) = of_int (2 ^ nat (n - m))"
    using assms by (simp add: power_int_def)
  finally show ?thesis .
qed

lemma round64_mono_pos:
  assumes x: "0 < x" and xy: "x \<le> y"
  shows "round64 x \<le> round64 y"
proof -
  from x xy have y: "0 < y" by simp
  define ex where "ex = max (binade x) (- 1022)"
  define ey where "ey = max (binade y) (- 1022)"
  have ux: "ulp x = 2 powi (ex - 52)" and uy: "ulp y = 2 powi (ey - 52)"
    using x y by (simp_all add: ulp_def ex_def ey_def)
  from binade_mono [OF x xy] have le: "ex \<le> ey" by (simp add: ex_def ey_def)
  show ?thesis
  proof (cases "ex = ey")
    case True
    with ux uy have "ulp x = ulp y" by simp
    with round_to_grid_mono [OF ulp_pos xy, of y] show ?thesis
      by (simp add: round64_pos x y)
  next
    case False
    with le have lt: "ex < ey" by simp
    then have eyb: "ey = binade y" by (simp add: ex_def ey_def max_def split: if_splits)
    define g :: real where "g = 2 powi ey"
    from binade_bounds [OF y] have gy: "g \<le> y" by (simp add: g_def eyb)
    have "x < 2 powi (binade x + 1)" using binade_bounds [OF x] by simp
    also have "\<dots> \<le> 2 powi (ex + 1)"
      by (intro power_int_increasing) (simp_all add: ex_def)
    also have "\<dots> \<le> g" unfolding g_def
      using lt by (intro power_int_increasing) simp_all
    finally have xg: "x \<le> g" by simp
    have gx: "g = of_int (2 ^ nat (ey - (ex - 52))) * ulp x"
      unfolding g_def ux using lt by (intro power_int_as_multiple) simp
    have gy': "g = of_int (2 ^ nat (ey - (ey - 52))) * ulp y"
      unfolding g_def uy by (intro power_int_as_multiple) simp
    from round_to_grid_below [OF ulp_pos, of x "2 ^ nat (ey - (ex - 52))" x] xg gx
    have "round64 x \<le> g" by (simp add: round64_pos x)
    moreover from round_to_grid_above [OF ulp_pos, of "2 ^ nat (ey - (ey - 52))" y y] gy gy'
    have "g \<le> round64 y" by (simp add: round64_pos y)
    ultimately show ?thesis by simp
  qed
qed

lemma round64_mono:
  assumes xy: "x \<le> y"
  shows "round64 x \<le> round64 y"
proof (cases "0 < x")
  case True
  from True xy show ?thesis by (rule round64_mono_pos)
next
  case x: False
  show ?thesis
  proof (cases "0 \<le> y")
    case True
    from x have "0 \<le> - x" by simp
    from round64_nonneg [OF this] have "round64 x \<le> 0" by (simp add: round64_minus)
    with round64_nonneg [OF True] show ?thesis by simp
  next
    case False
    with xy have "0 < - y" "- y \<le> - x" by simp_all
    from round64_mono_pos [OF this] show ?thesis by (simp add: round64_minus)
  qed
qed

lemma round_to_grid_multiple: "0 < u \<Longrightarrow> round_to_grid u (u * of_int k) = u * of_int k"
  by (simp add: round_to_grid_def Let_def)

lemma round64_of_nat_pos:
  assumes n: "0 < n" "n < 2 ^ 53"
  shows "round64 (real n) = real n"
proof -
  let ?x = "real n"
  from n have x: "0 < ?x" by simp
  define e where "e = max (binade ?x) (- 1022)"
  have u: "ulp ?x = 2 powi (e - 52)" using x by (simp add: ulp_def e_def)
  have "(2::real) powi binade ?x \<le> ?x" using binade_bounds [OF x] by simp
  also have "?x < 2 ^ 53" using n(2) by (metis of_nat_less_iff of_nat_numeral of_nat_power)
  finally have "(2::real) powi binade ?x < 2 powi 53" by simp
  moreover have "(2::real) powi 53 \<le> 2 powi binade ?x" if "53 \<le> binade ?x"
    using that by (intro power_int_increasing) simp_all
  ultimately have "binade ?x < 53" by fastforce
  then have e: "e \<le> 52" by (simp add: e_def)
  have "(1::real) = 2 powi (52 - e) * 2 powi (e - 52)" by (simp flip: power_int_add)
  also have "(2::real) powi (52 - e) = of_int (2 ^ nat (52 - e))"
    using e by (simp add: power_int_def)
  finally have m: "?x = ulp ?x * of_int (int n * 2 ^ nat (52 - e))"
    by (simp add: u mult.commute)
  have "round_to_grid (ulp ?x) (ulp ?x * of_int (int n * 2 ^ nat (52 - e))) =
      ulp ?x * of_int (int n * 2 ^ nat (52 - e))"
    by (rule round_to_grid_multiple [OF ulp_pos])
  then have "round_to_grid (ulp ?x) ?x = ?x" by (simp only: m [symmetric])
  then show ?thesis by (simp add: round64_pos [OF x])
qed

text \<open>The same for \<open>binary64\<close>, which adds the overflow.\<close>

lemma binary64_finite: "\<bar>round64 x\<bar> < 2 ^ 1024 \<Longrightarrow> binary64 x = Finite (round64 x)"
  by (simp add: binary64_def Let_def)

lemma binary64_zero: "binary64 0 = Finite 0"
  by (simp add: binary64_def round64_zero)

lemma binary64_minus: "binary64 (- x) = dneg (binary64 x)"
  by (auto simp: binary64_def round64_minus Let_def signed_inf_def)

lemma binary64_of_nat:
  assumes "n < 2 ^ 53"
  shows "binary64 (real n) = Finite (real n)"
proof (cases "n = 0")
  case True
  then show ?thesis by (simp add: binary64_zero)
next
  case False
  with assms have r: "round64 (real n) = real n" by (intro round64_of_nat_pos) simp_all
  from assms have "real n < 2 ^ 53" by (metis of_nat_less_iff of_nat_numeral of_nat_power)
  also have "(2::real) ^ 53 \<le> 2 ^ 1024" by (intro power_increasing) simp_all
  finally show ?thesis by (simp add: binary64_finite r)
qed

lemma binary64_numeral [simp]:
  "numeral k < (2::nat) ^ 53 \<Longrightarrow> binary64 (numeral k) = Finite (numeral k)"
  using binary64_of_nat [of "numeral k"] by simp

lemma binary64_one [simp]: "binary64 1 = Finite 1"
  using binary64_of_nat [of 1] by simp

lemma binary64_neg_numeral [simp]:
  "numeral k < (2::nat) ^ 53 \<Longrightarrow> binary64 (- numeral k) = Finite (- numeral k)"
  by (simp add: binary64_minus)

lemma binade_unique:
  assumes x: "0 < x" and b: "2 powi k \<le> x" "x < 2 powi (k + 1)"
  shows "binade x = k"
proof -
  from binade_bounds [OF x] have c: "2 powi binade x \<le> x" "x < 2 powi (binade x + 1)" by simp_all
  have "binade x < k + 1"
  proof (rule ccontr)
    assume "\<not> binade x < k + 1"
    then have "(2::real) powi (k + 1) \<le> 2 powi binade x" by (intro power_int_increasing) simp_all
    with b(2) c(1) show False by simp
  qed
  moreover have "k < binade x + 1"
  proof (rule ccontr)
    assume "\<not> k < binade x + 1"
    then have "(2::real) powi (binade x + 1) \<le> 2 powi k" by (intro power_int_increasing) simp_all
    with b(1) c(2) show False by simp
  qed
  ultimately show ?thesis by simp
qed

lemma round64_power2: "round64 (2 ^ n) = 2 ^ n"
proof -
  let ?x = "(2::real) ^ n"
  have x: "0 < ?x" by simp
  have "binade ?x = int n"
    by (rule binade_unique) (simp_all add: power_int_add)
  then have u: "ulp ?x = 2 powi (int n - 52)" by (simp add: ulp_def)
  have e: "(2::real) powi int n = of_int (2 ^ nat (int n - (int n - 52))) * 2 powi (int n - 52)"
    by (intro power_int_as_multiple) simp
  have k: "nat (int n - (int n - 52)) = 52" by simp
  have p: "(2::real) powi int n = 2 ^ n" by simp
  from e have m: "?x = ulp ?x * of_int (2 ^ 52)"
    unfolding k p u [symmetric] by (simp only: mult.commute)
  have "round_to_grid (ulp ?x) (ulp ?x * of_int (2 ^ 52)) = ulp ?x * of_int (2 ^ 52)"
    by (rule round_to_grid_multiple [OF ulp_pos])
  then have "round_to_grid (ulp ?x) ?x = ?x" by (simp only: m [symmetric])
  then show ?thesis by (simp only: round64_pos [OF x])
qed

lemma overflow_cases:
  fixes M r :: real
  shows "0 < M \<Longrightarrow> M \<le> r \<Longrightarrow>
    (if M \<le> \<bar>r\<bar> then (if r < 0 then NegInf else PosInf) else Finite r) = PosInf"
  by auto

lemma binary64_overflows:
  assumes a: "2 ^ 1024 \<le> x"
  shows "binary64 x = PosInf"
proof -
  from round64_mono [OF a] have "2 ^ 1024 \<le> round64 x" by (simp only: round64_power2)
  moreover have "0 < (2::real) ^ 1024" by (rule zero_less_power) simp
  ultimately show ?thesis
    unfolding binary64_def Let_def signed_inf_def by (rule overflow_cases [rotated])
qed

lemma binary64_power2:
  assumes "n < 1024"
  shows "binary64 (2 ^ n) = Finite (2 ^ n)"
proof -
  from assms have "(2::real) ^ n < 2 ^ 1024" by (intro power_strict_increasing) simp_all
  moreover have "\<bar>round64 (2 ^ n)\<bar> = 2 ^ n" by (simp only: round64_power2) simp
  ultimately have "\<bar>round64 (2 ^ n)\<bar> < 2 ^ 1024" by (simp only:)
  then show ?thesis by (simp only: binary64_finite round64_power2)
qed

lemma monotone_roundingD: "monotone_rounding rnd \<Longrightarrow> x \<le> y \<Longrightarrow> dle (rnd x) (rnd y)"
  by (simp add: monotone_rounding_def)

lemma monotone_rounding_exact: "monotone_rounding exact"
  by (simp add: monotone_rounding_def exact_def)

lemma monotone_rounding_binary64: "monotone_rounding binary64"
  unfolding monotone_rounding_def
proof (intro conjI allI impI)
  fix x y :: real assume "x \<le> y"
  then have "round64 x \<le> round64 y" by (rule round64_mono)
  then show "dle (binary64 x) (binary64 y)"
    by (auto simp: binary64_def Let_def signed_inf_def)
next
  show "binary64 0 = Finite 0" by (rule binary64_zero)
qed

text \<open>The equations that evaluate \<open>binary64\<close> on a given number.\<close>

lemmas binary64_eval =
  binary64_def round64_def ulp_def binade.simps round_to_grid_def Let_def power_int_minus
  signed_inf_def

lemma binary64_tenth: "binary64 (1 / 10) = Finite (3602879701896397 / 2 ^ 55)"
  by (simp add: binary64_eval)

lemma binary64_overflow: "dadd binary64 (Finite (2 ^ 1023)) (Finite (2 ^ 1023)) = PosInf"
  by (simp add: binary64_overflows)

lemma binary64_EPSILON: "\<exists>e. binary64 (1 / 10 ^ 9) = Finite e \<and> 0 \<le> e \<and> e \<le> 600"
proof -
  have "dle (binary64 0) (binary64 (1 / 10 ^ 9))" "dle (binary64 (1 / 10 ^ 9)) (binary64 600)"
    by (rule monotone_roundingD [OF monotone_rounding_binary64], simp)+
  then show ?thesis
    by (cases "binary64 (1 / 10 ^ 9)") (simp_all add: binary64_zero)
qed

section \<open>General lemmas on the analyzer\<close>

lemma dlt_PosInf [simp]: "dlt PosInf x = False"
  by (cases x) simp_all

lemma dlt_NegInf [simp]: "dlt x NegInf = False"
  by (cases x) simp_all

lemma clamp_unit: "\<exists>s. std_max (Finite 0) (std_min (Finite 1) x) = Finite s \<and> 0 \<le> s \<and> s \<le> 1"
  by (cases x) (auto simp: std_min_def std_max_def)

lemma weighted_sum_returns:
  "length durations \<le> length intensities \<Longrightarrow> \<exists>v. weighted_sum rnd w acc durations intensities = Inr v"
  by (induction rnd w acc durations intensities rule: weighted_sum.induct) simp_all

lemma calculateConsistencyScore_unit:
  "\<exists>s. calculateConsistencyScore rnd durations intensities = Finite s \<and> 0 \<le> s \<and> s \<le> 1"
  using clamp_unit by (simp add: calculateConsistencyScore_def Let_def)

lemma calculateTrainingDensityScore_unit:
  assumes "length durations \<le> length intensities"
  shows "\<exists>t. calculateTrainingDensityScore rnd durations intensities = Inr (Finite t) \<and> 0 \<le> t \<and> t \<le> 1"
proof -
  from weighted_sum_returns [OF assms] obtain v
    where "weighted_sum rnd (normalizeIntensity rnd) (Finite 0) durations intensities = Inr v"
    by blast
  then show ?thesis
    using clamp_unit by (simp add: calculateTrainingDensityScore_def Let_def)
qed

lemma calculateWorkRestRatio_no_rest:
  "\<exists>x. calculateWorkRestRatio rnd durations [] = Inr x"
  by (simp add: calculateWorkRestRatio_def Let_def)

lemma calculateTrainingDensityScore_returns:
  "length durations \<le> length intensities \<Longrightarrow>
   \<exists>t. calculateTrainingDensityScore rnd durations intensities = Inr t"
  using calculateTrainingDensityScore_unit by blast

lemma analyze_fields:
  assumes "validateInputs durations intensities = Inr ()"
    and "calculateWorkRestRatio rnd durations restDurations = Inr x"
    and "weighted_sum rnd of_uint8 (Finite 0) durations intensities = Inr v"
    and "length durations \<le> length intensities"
  shows "\<exists>r. analyze rnd durations intensities restDurations = Inr r \<and>
           totalActiveTime r = calculateTotalActiveTime rnd durations \<and>
           workRestRatio r = x \<and>
           averageIntensity r =
             ddiv rnd (foldl (\<lambda>acc intensity. dadd rnd acc (of_uint8 intensity)) (Finite 0) intensities)
               (of_size (length intensities)) \<and>
           totalWorkVolume r = v \<and> totalSets r = length durations"
proof -
  from calculateTrainingDensityScore_returns [OF assms(4)] obtain t
    where "calculateTrainingDensityScore rnd durations intensities = Inr t" by blast
  with assms(1-3) show ?thesis by (simp add: analyze_def Let_def)
qed

lemma calculateTotalActiveTime_accumulate:
  "calculateTotalActiveTime rnd durations = accumulate rnd (Finite 0) durations"
  by (simp add: calculateTotalActiveTime_def accumulate_def)

lemma analyze_Inr_fields:
  assumes "analyze rnd durations intensities restDurations = Inr r"
  shows "totalActiveTime r = accumulate rnd (Finite 0) durations \<and>
         weighted_sum rnd of_uint8 (Finite 0) durations intensities = Inr (totalWorkVolume r)"
  using assms
  by (auto simp: analyze_def Let_def calculateTotalActiveTime_accumulate split: sum.splits)

lemma accumulate_exact:
  "accumulate exact (Finite a) (map Finite xs) = Finite (a + sum_list xs)"
  unfolding accumulate_def
  by (induction xs arbitrary: a) (simp_all add: exact_def add.assoc)

section \<open>Validation\<close>

lemma duration_inside_not_refused: "duration_inside d \<Longrightarrow> \<not> duration_refused d"
  by (cases d) (auto simp: duration_inside_def duration_refused_def MIN_DURATION_def MAX_DURATION_def)

lemma intensity_test: "(w < MIN_INTENSITY \<or> w > MAX_INTENSITY) = intensity_outside w"
  by (auto simp: MIN_INTENSITY_def MAX_INTENSITY_def intensity_outside_def word_less_nat_alt)

lemma intensity_inside_not_outside: "intensity_inside w \<Longrightarrow> \<not> intensity_outside w"
  by (auto simp: intensity_inside_def intensity_outside_def)

lemma duration_test: "(dlt d MIN_DURATION \<or> dlt MAX_DURATION d) = duration_refused d"
  by (simp add: duration_refused_def)

text \<open>The durations outside \<open>[0, 86400]\<close> that the comparisons do not catch are the NaNs.\<close>

lemma duration_outside_iff: "duration_outside d \<longleftrightarrow> duration_refused d \<or> d = NaN"
  by (cases d)
    (auto simp: duration_outside_def duration_inside_def duration_refused_def MIN_DURATION_def
      MAX_DURATION_def)

lemma check_durations_pass:
  "(\<And>d. d \<in> set durations \<Longrightarrow> \<not> duration_refused d) \<Longrightarrow> check_durations i durations = Inr ()"
  by (induction durations arbitrary: i) (simp_all add: duration_test)

lemma check_durations_fail:
  "d \<in> set durations \<Longrightarrow> duration_refused d \<Longrightarrow>
   \<exists>k < length durations. duration_refused (durations ! k) \<and>
      check_durations i durations = Inl (DurationOutOfRange (i + k))"
proof (induction durations arbitrary: i)
  case Nil
  then show ?case by simp
next
  case (Cons a durations)
  show ?case
  proof (cases "duration_refused a")
    case True
    then have "check_durations i (a # durations) = Inl (DurationOutOfRange (i + 0))"
      by (simp add: duration_test)
    with True show ?thesis by (intro exI [of _ 0]) simp
  next
    case False
    with Cons.prems have "d \<in> set durations" by auto
    from Cons.IH [OF this Cons.prems(2), of "Suc i"]
    obtain k where k: "k < length durations" "duration_refused (durations ! k)"
      "check_durations (Suc i) durations = Inl (DurationOutOfRange (Suc i + k))" by blast
    with False show ?thesis by (intro exI [of _ "Suc k"]) (simp add: duration_test)
  qed
qed

lemma check_intensities_pass:
  "(\<And>w. w \<in> set intensities \<Longrightarrow> \<not> intensity_outside w) \<Longrightarrow> check_intensities i intensities = Inr ()"
  by (induction intensities arbitrary: i) (simp_all add: intensity_test)

lemma check_intensities_fail:
  "w \<in> set intensities \<Longrightarrow> intensity_outside w \<Longrightarrow>
   \<exists>k < length intensities. intensity_outside (intensities ! k) \<and>
      check_intensities i intensities = Inl (IntensityOutOfRange (i + k))"
proof (induction intensities arbitrary: i)
  case Nil
  then show ?case by simp
next
  case (Cons a intensities)
  show ?case
  proof (cases "intensity_outside a")
    case True
    then have "check_intensities i (a # intensities) = Inl (IntensityOutOfRange (i + 0))"
      by (simp add: intensity_test)
    with True show ?thesis by (intro exI [of _ 0]) simp
  next
    case False
    with Cons.prems have "w \<in> set intensities" by auto
    from Cons.IH [OF this Cons.prems(2), of "Suc i"]
    obtain k where k: "k < length intensities" "intensity_outside (intensities ! k)"
      "check_intensities (Suc i) intensities = Inl (IntensityOutOfRange (Suc i + k))" by blast
    with False show ?thesis by (intro exI [of _ "Suc k"]) (simp add: intensity_test)
  qed
qed

lemma validateInputs_valid: "valid_input durations intensities \<Longrightarrow> validateInputs durations intensities = Inr ()"
  unfolding valid_input_def validateInputs_def
  by (simp add: check_durations_pass check_intensities_pass list_all_iff
      duration_inside_not_refused intensity_inside_not_outside)

lemma validateInputs_range:
  assumes len: "length durations = length intensities"
    and bad: "(\<exists>d \<in> set durations. duration_refused d) \<or> (\<exists>w \<in> set intensities. intensity_outside w)"
  shows "\<exists>i < length durations.
           (validateInputs durations intensities = Inl (DurationOutOfRange i) \<and> duration_refused (durations ! i)) \<or>
           (validateInputs durations intensities = Inl (IntensityOutOfRange i) \<and> intensity_outside (intensities ! i))"
proof (cases "\<exists>d \<in> set durations. duration_refused d")
  case True
  then obtain d where "d \<in> set durations" "duration_refused d" by blast
  from check_durations_fail [OF this, of 0] len show ?thesis
    by (auto simp: validateInputs_def)
next
  case False
  then have ok: "check_durations 0 durations = Inr ()"
    by (intro check_durations_pass) blast
  from False bad obtain w where "w \<in> set intensities" "intensity_outside w" by blast
  from check_intensities_fail [OF this, of 0] len ok show ?thesis
    by (auto simp: validateInputs_def)
qed

lemma analyze_validation_error:
  "validateInputs durations intensities = Inl e \<Longrightarrow> analyze rnd durations intensities restDurations = Inl e"
  by (simp add: analyze_def)

text \<open>
  What validation does: a size mismatch when the two vectors differ in length; when they
  agree and some duration is below 0 or above 86400 or some intensity is outside \<open>[1, 5]\<close>,
  a range error that carries an index at which the vector it names holds such a value; an
  error of \<open>validateInputs\<close> is the outcome of \<open>analyze\<close> whatever the rest durations are, so
  it is raised before any metric; and inputs that satisfy the three conditions pass.
\<close>

lemma analyze_validation_errors:
  "(length durations \<noteq> length intensities \<longrightarrow>
      (\<exists>e. analyze rnd durations intensities restDurations = Inl e \<and> SizeMismatchError e)) \<and>
   (length durations = length intensities \<and>
      ((\<exists>d \<in> set durations. duration_refused d) \<or> (\<exists>w \<in> set intensities. intensity_outside w)) \<longrightarrow>
      (\<exists>i e. analyze rnd durations intensities restDurations = Inl e \<and> RangeError i e \<and>
         i < length durations \<and>
         (e = DurationOutOfRange i \<and> duration_refused (durations ! i) \<or>
          e = IntensityOutOfRange i \<and> intensity_outside (intensities ! i)))) \<and>
   (\<forall>e. validateInputs durations intensities = Inl e \<longrightarrow>
      analyze rnd durations intensities restDurations = Inl e) \<and>
   (valid_input durations intensities \<longrightarrow> validateInputs durations intensities = Inr ())"
proof (intro conjI impI allI)
  assume "length durations \<noteq> length intensities"
  then have "validateInputs durations intensities = Inl SizesDiffer"
    by (simp add: validateInputs_def)
  then show "\<exists>e. analyze rnd durations intensities restDurations = Inl e \<and> SizeMismatchError e"
    by (simp add: analyze_validation_error SizeMismatchError_def)
next
  assume "length durations = length intensities \<and>
      ((\<exists>d \<in> set durations. duration_refused d) \<or> (\<exists>w \<in> set intensities. intensity_outside w))"
  then obtain i where "i < length durations"
    "(validateInputs durations intensities = Inl (DurationOutOfRange i) \<and> duration_refused (durations ! i)) \<or>
     (validateInputs durations intensities = Inl (IntensityOutOfRange i) \<and> intensity_outside (intensities ! i))"
    using validateInputs_range by blast
  then show "\<exists>i e. analyze rnd durations intensities restDurations = Inl e \<and> RangeError i e \<and>
         i < length durations \<and>
         (e = DurationOutOfRange i \<and> duration_refused (durations ! i) \<or>
          e = IntensityOutOfRange i \<and> intensity_outside (intensities ! i))"
    by (auto simp: RangeError_def dest: analyze_validation_error [where rnd = rnd and restDurations = restDurations])
next
  fix e assume "validateInputs durations intensities = Inl e"
  then show "analyze rnd durations intensities restDurations = Inl e"
    by (rule analyze_validation_error)
next
  assume "valid_input durations intensities"
  then show "validateInputs durations intensities = Inr ()" by (rule validateInputs_valid)
qed

text \<open>
  C2 asks for a range error whenever a duration is outside \<open>[0, 86400]\<close>.  The code misses
  one case: for a NaN duration both comparisons of \<open>validateInputs\<close> are false, nothing is
  thrown, and \<open>analyze\<close> goes on to compute the metrics from it.
\<close>

theorem analyze_NaN_duration:
  "duration_outside NaN \<and> length [NaN] = length [3 :: 8 word] \<and>
   validateInputs [NaN] [3] = Inr () \<and>
   (\<exists>r. analyze binary64 [NaN] [3] [] = Inr r \<and> totalActiveTime r = NaN \<and>
      totalWorkVolume r = NaN \<and> totalSets r = 1)"
proof -
  have v: "validateInputs [NaN] [3] = Inr ()"
    by (simp add: validateInputs_def MIN_DURATION_def MAX_DURATION_def MIN_INTENSITY_def
        MAX_INTENSITY_def)
  obtain x where x: "calculateWorkRestRatio binary64 [NaN] [] = Inr x"
    using calculateWorkRestRatio_no_rest by blast
  have w: "weighted_sum binary64 of_uint8 (Finite 0) [NaN] [3] = Inr NaN"
    by (simp add: of_uint8_def)
  have t: "calculateTotalActiveTime binary64 [NaN] = NaN"
    by (simp add: calculateTotalActiveTime_def accumulate_def)
  from analyze_fields [OF v x w] t v show ?thesis
    by (auto simp: duration_outside_def duration_inside_def)
qed

section \<open>Empty input\<close>

text \<open>
  C3, as stated, fails for empty durations: \<open>calculateWorkRestRatio\<close> returns \<open>0.0\<close> before
  it looks at the rest durations, here two of them against no set at all.
\<close>

theorem calculateWorkRestRatio_empty_durations_counterexample:
  "[Finite 60, Finite 60] \<noteq> [] \<and>
   int (length [Finite 60, Finite 60]) \<noteq> int (length ([] :: double list)) \<and>
   int (length [Finite 60, Finite 60]) \<noteq> int (length ([] :: double list)) - 1 \<and>
   calculateWorkRestRatio binary64 [] [Finite 60, Finite 60] = Inr (Finite 0)"
  by (simp add: calculateWorkRestRatio_def)

text \<open>
  C3, amended.  For non-empty durations, non-empty rest durations whose length is neither
  the number of sets nor that number less one are refused with a size mismatch; for empty
  durations the result is \<open>0.0\<close> whatever the rest durations are.
\<close>

theorem calculateWorkRestRatio_size_mismatch:
  "(durations \<noteq> [] \<and> restDurations \<noteq> [] \<and> length restDurations \<noteq> length durations \<and>
      int (length restDurations) \<noteq> int (length durations) - 1 \<longrightarrow>
      (\<exists>e. calculateWorkRestRatio rnd durations restDurations = Inl e \<and> SizeMismatchError e)) \<and>
   calculateWorkRestRatio rnd [] restDurations = Inr (Finite 0)"
  by (auto simp: calculateWorkRestRatio_def SizeMismatchError_def Let_def)

theorem calculateWorkRestRatio_size_mismatch_witness:
  "[Finite 300, Finite 300, Finite 300] \<noteq> [] \<and> [Finite 60] \<noteq> [] \<and>
   length [Finite 60] \<noteq> length [Finite 300, Finite 300, Finite 300] \<and>
   int (length [Finite 60]) \<noteq> int (length [Finite 300, Finite 300, Finite 300]) - 1 \<and>
   (\<exists>e. calculateWorkRestRatio exact [Finite 300, Finite 300, Finite 300] [Finite 60] = Inl e \<and>
      SizeMismatchError e)"
  using calculateWorkRestRatio_size_mismatch [of "[Finite 300, Finite 300, Finite 300]" "[Finite 60]" exact]
  by simp

text \<open>
  C4, as stated, fails: on empty input \<open>analyze\<close> succeeds, but the average intensity is
  \<open>0.0 / 0.0\<close>, which is NaN, and the consistency score is \<open>1.0\<close> (fewer than two sets).
\<close>

theorem analyze_empty_counterexample:
  "(case analyze binary64 [] [] [] of
      Inl e \<Rightarrow> False
    | Inr r \<Rightarrow> averageIntensity r = NaN \<and> averageIntensity r \<noteq> Finite 0 \<and>
        consistencyScore r = Finite 1 \<and> consistencyScore r \<noteq> Finite 0)"
  by (simp add: analyze_def validateInputs_def calculateWorkRestRatio_def
      calculateTrainingDensityScore_def calculateConsistencyScore_def of_size_def)

text \<open>
  C4, amended.  On empty durations and intensities \<open>analyze\<close> raises no error, whatever the
  rest durations are, and returns zero sets, zero active time, work/rest ratio, density
  score and work volume, and the consistency score \<open>1.0\<close>.
\<close>

theorem analyze_empty:
  "\<exists>r. analyze rnd [] [] restDurations = Inr r \<and> totalSets r = 0 \<and>
     totalActiveTime r = Finite 0 \<and> workRestRatio r = Finite 0 \<and>
     trainingDensityScore r = Finite 0 \<and> totalWorkVolume r = Finite 0 \<and>
     consistencyScore r = Finite 1"
  by (simp add: analyze_def validateInputs_def calculateWorkRestRatio_def
      calculateTrainingDensityScore_def calculateConsistencyScore_def
      calculateTotalActiveTime_def)

section \<open>The two scores\<close>

text \<open>
  C1.  For an input that passes validation (equal lengths, every duration in
  \<open>[0, 86400]\<close>, every intensity in \<open>[1, 5]\<close>), the consistency score and the training
  density score are numbers between 0 and 1, and the density score is returned (its loop
  stays inside the intensities).  The bounds come from the final clamp, so they hold for
  every rounding function.
\<close>

theorem scores_in_unit_interval:
  "valid_input durations intensities \<Longrightarrow>
   (\<exists>s. calculateConsistencyScore rnd durations intensities = Finite s \<and> 0 \<le> s \<and> s \<le> 1) \<and>
   (\<exists>t. calculateTrainingDensityScore rnd durations intensities = Inr (Finite t) \<and> 0 \<le> t \<and> t \<le> 1)"
  using calculateConsistencyScore_unit calculateTrainingDensityScore_unit
  by (simp add: valid_input_def)

theorem scores_in_unit_interval_witness:
  "valid_input [Finite 180, Finite 240, Finite 300] [2, 3, 5] \<and>
   (\<exists>s. calculateConsistencyScore exact [Finite 180, Finite 240, Finite 300] [2, 3, 5] = Finite s \<and>
      0 \<le> s \<and> s \<le> 1) \<and>
   (\<exists>t. calculateTrainingDensityScore exact [Finite 180, Finite 240, Finite 300] [2, 3, 5] = Inr (Finite t) \<and>
      0 \<le> t \<and> t \<le> 1)"
proof -
  have v: "valid_input [Finite 180, Finite 240, Finite 300] [2, 3, 5]"
    by (simp add: valid_input_def duration_inside_def intensity_inside_def)
  from v scores_in_unit_interval [OF v, of exact] show ?thesis by simp
qed

section \<open>The work/rest ratio\<close>

lemma EPSILON_nonneg:
  assumes "monotone_rounding rnd"
  shows "dle (Finite 0) (EPSILON rnd)"
proof -
  have "dle (rnd 0) (rnd (1 / 10 ^ 9))"
    by (rule monotone_roundingD [OF assms]) simp
  with assms show ?thesis by (simp add: EPSILON_def monotone_rounding_def)
qed

text \<open>
  Two durations whose sum overflows: the total work and the total rest are both positive
  infinity, and their quotient is NaN.
\<close>

lemma calculateWorkRestRatio_overflow:
  assumes "binary64 d = Finite d" and "2 ^ 1024 \<le> d + d"
  shows "calculateWorkRestRatio binary64 [Finite d, Finite d] [] = Inr NaN"
  using assms
  by (simp add: calculateWorkRestRatio_def calculateTotalActiveTime_def accumulate_def Let_def
      binary64_overflows)

text \<open>
  Rest durations whose running sum overflows on the way: the sum of the numbers is \<open>-1\<close>,
  the sum the program computes is positive infinity, and the ratio is \<open>1500 / inf = 0.0\<close>.
\<close>

lemma calculateWorkRestRatio_rest_overflow:
  assumes "binary64 d = Finite d" and "2 ^ 1024 \<le> d + d"
  shows "accumulate binary64 (Finite 0) [Finite d, Finite d, Finite (- d), Finite (- d), Finite (- 1)] = PosInf \<and>
    calculateWorkRestRatio binary64 [Finite 300, Finite 300, Finite 300, Finite 300, Finite 300]
      [Finite d, Finite d, Finite (- d), Finite (- d), Finite (- 1)] = Inr (Finite 0)"
proof -
  have a: "accumulate binary64 (Finite 0) [Finite d, Finite d, Finite (- d), Finite (- d), Finite (- 1)] = PosInf"
    using assms by (simp add: accumulate_def binary64_overflows)
  obtain e where e: "binary64 (1 / 10 ^ 9) = Finite e"
    using binary64_EPSILON by blast
  have "calculateTotalActiveTime binary64 [Finite 300, Finite 300, Finite 300, Finite 300, Finite 300] = Finite 1500"
    by (simp add: calculateTotalActiveTime_def accumulate_def binary64_zero)
  with a e show ?thesis
    by (simp add: calculateWorkRestRatio_def Let_def EPSILON_def)
qed

text \<open>
  C5.  For non-empty durations and rest durations of an accepted length (none, one per
  set, or one per gap), the total rest is the sum of the rest durations, or the total work
  when there are none; the result is positive infinity when the total rest is below
  \<open>EPSILON\<close> and the total work divided by the total rest otherwise.  The first part
  states this for every rounding function and all doubles, the second for finite numbers
  in exact arithmetic, where the sums are \<open>sum_list\<close> and \<open>EPSILON\<close> is \<open>1e-9\<close>; then come
  the example of the specification, in exact arithmetic and with binary64 rounding, and
  the durations \<open>[2^1023, 2^1023]\<close>, whose sum overflows, so that the result is
  \<open>inf / inf\<close>, which is NaN.
\<close>

theorem calculateWorkRestRatio_value:
  "(durations \<noteq> [] \<and>
      (restDurations = [] \<or> length restDurations = length durations \<or>
       length restDurations = length durations - 1) \<longrightarrow>
      calculateWorkRestRatio rnd durations restDurations =
        Inr (let totalWork = accumulate rnd (Finite 0) durations;
                 totalRest = (if restDurations = [] then totalWork
                              else accumulate rnd (Finite 0) restDurations)
             in if dlt totalRest (EPSILON rnd) then PosInf else ddiv rnd totalWork totalRest)) \<and>
   (ds \<noteq> [] \<and> (rs = [] \<or> length rs = length ds \<or> length rs = length ds - 1) \<longrightarrow>
      calculateWorkRestRatio exact (map Finite ds) (map Finite rs) =
        Inr (let rest = (if rs = [] then sum_list ds else sum_list rs)
             in if rest < 1 / 10 ^ 9 then PosInf else Finite (sum_list ds / rest))) \<and>
   calculateWorkRestRatio exact [Finite 300, Finite 300] [] = Inr (Finite 1) \<and>
   calculateWorkRestRatio binary64 [Finite 300, Finite 300] [] = Inr (Finite 1) \<and>
   calculateWorkRestRatio binary64 [Finite (2 ^ 1023), Finite (2 ^ 1023)] [] = Inr NaN"
proof (intro conjI impI)
  assume "durations \<noteq> [] \<and>
      (restDurations = [] \<or> length restDurations = length durations \<or>
       length restDurations = length durations - 1)"
  then show "calculateWorkRestRatio rnd durations restDurations =
        Inr (let totalWork = accumulate rnd (Finite 0) durations;
                 totalRest = (if restDurations = [] then totalWork
                              else accumulate rnd (Finite 0) restDurations)
             in if dlt totalRest (EPSILON rnd) then PosInf else ddiv rnd totalWork totalRest)"
    by (auto simp: calculateWorkRestRatio_def calculateTotalActiveTime_def Let_def)
next
  assume a: "ds \<noteq> [] \<and> (rs = [] \<or> length rs = length ds \<or> length rs = length ds - 1)"
  then show "calculateWorkRestRatio exact (map Finite ds) (map Finite rs) =
        Inr (let rest = (if rs = [] then sum_list ds else sum_list rs)
             in if rest < 1 / 10 ^ 9 then PosInf else Finite (sum_list ds / rest))"
    by (auto simp: calculateWorkRestRatio_def calculateTotalActiveTime_def Let_def
        accumulate_exact EPSILON_def exact_def)
next
  show "calculateWorkRestRatio exact [Finite 300, Finite 300] [] = Inr (Finite 1)"
    by (simp add: calculateWorkRestRatio_def calculateTotalActiveTime_def Let_def
        accumulate_def EPSILON_def exact_def)
next
  obtain e where "binary64 (1 / 10 ^ 9) = Finite e" "e \<le> 600"
    using binary64_EPSILON by blast
  then show "calculateWorkRestRatio binary64 [Finite 300, Finite 300] [] = Inr (Finite 1)"
    by (simp add: calculateWorkRestRatio_def calculateTotalActiveTime_def Let_def
        accumulate_def EPSILON_def binary64_zero)
next
  have "binary64 (2 ^ 1023) = Finite (2 ^ 1023)" by (rule binary64_power2) simp
  then show "calculateWorkRestRatio binary64 [Finite (2 ^ 1023), Finite (2 ^ 1023)] [] = Inr NaN"
    by (intro calculateWorkRestRatio_overflow) simp_all
qed

theorem calculateWorkRestRatio_value_witness:
  "[Finite 300, Finite 300] \<noteq> [] \<and> [Finite 0] \<noteq> [] \<and> length [Finite 0] = length [Finite 300, Finite 300] - 1 \<and>
   calculateWorkRestRatio exact [Finite 300, Finite 300] [Finite 0] = Inr PosInf \<and>
   length [Finite 100, Finite 200] = length [Finite 300, Finite 300] \<and>
   calculateWorkRestRatio exact [Finite 300, Finite 300] [Finite 100, Finite 200] = Inr (Finite 2) \<and>
   [300, 300 :: real] \<noteq> [] \<and> length [100, 50 :: real] = length [300, 300 :: real] \<and>
   calculateWorkRestRatio exact (map Finite [300, 300]) (map Finite [100, 50]) = Inr (Finite 4)"
proof -
  have 1: "calculateWorkRestRatio exact [Finite 300, Finite 300] [Finite 0] = Inr PosInf"
    using calculateWorkRestRatio_value [of "[Finite 300, Finite 300]" "[Finite 0]" exact]
    by (simp add: accumulate_def EPSILON_def exact_def)
  have 2: "calculateWorkRestRatio exact [Finite 300, Finite 300] [Finite 100, Finite 200] = Inr (Finite 2)"
    using calculateWorkRestRatio_value [of "[Finite 300, Finite 300]" "[Finite 100, Finite 200]" exact]
    by (simp add: accumulate_def EPSILON_def exact_def)
  have 3: "calculateWorkRestRatio exact (map Finite [300, 300]) (map Finite [100, 50]) = Inr (Finite 4)"
    using calculateWorkRestRatio_value [of _ _ _ "[300, 300]" "[100, 50]"]
    by simp
  from 1 2 3 show ?thesis by simp
qed

lemma negative_rest_infinite:
  assumes "monotone_rounding rnd" and "durations \<noteq> []"
    and "length restDurations = length durations \<or> length restDurations = length durations - 1"
    and "dlt (accumulate rnd (Finite 0) restDurations) (Finite 0)"
  shows "calculateWorkRestRatio rnd durations restDurations = Inr PosInf"
proof -
  from assms(4) have ne: "restDurations \<noteq> []"
    by (auto simp: accumulate_def)
  from EPSILON_nonneg [OF assms(1)] assms(4)
  have "dlt (accumulate rnd (Finite 0) restDurations) (EPSILON rnd)"
    by (cases "accumulate rnd (Finite 0) restDurations"; cases "EPSILON rnd") auto
  with assms(2,3) ne show ?thesis
    by (auto simp: calculateWorkRestRatio_def Let_def)
qed

text \<open>
  C10.  The rest durations are never range-checked: for non-empty durations and rest
  durations of an accepted length whose sum is negative, the result is positive infinity,
  not a negative ratio.  The sum is the total rest that the program computes, from left to
  right in its arithmetic (negative infinity included).  The rounding function has to be
  monotone with \<open>rnd 0 = 0\<close>, so that \<open>EPSILON\<close> is not negative; exact arithmetic and binary64
  rounding both are.  In exact arithmetic the computed sum is the sum of the numbers.  With
  binary64 rounding the two can differ when the running sum overflows: for the rest
  durations \<open>[2^1023, 2^1023, -2^1023, -2^1023, -1]\<close> the numbers add up to \<open>-1\<close>, the
  program's total is positive infinity, and the ratio of five sets of 300 seconds is
  \<open>1500 / inf = 0.0\<close>.
\<close>

theorem calculateWorkRestRatio_negative_rest:
  "(monotone_rounding rnd \<and> durations \<noteq> [] \<and>
      (length restDurations = length durations \<or> length restDurations = length durations - 1) \<and>
      dlt (accumulate rnd (Finite 0) restDurations) (Finite 0) \<longrightarrow>
      calculateWorkRestRatio rnd durations restDurations = Inr PosInf) \<and>
   (ds \<noteq> [] \<and> (length rs = length ds \<or> length rs = length ds - 1) \<and> sum_list rs < 0 \<longrightarrow>
      calculateWorkRestRatio exact (map Finite ds) (map Finite rs) = Inr PosInf) \<and>
   accumulate binary64 (Finite 0)
     [Finite (2 ^ 1023), Finite (2 ^ 1023), Finite (- (2 ^ 1023)), Finite (- (2 ^ 1023)),
      Finite (- 1)] = PosInf \<and>
   calculateWorkRestRatio binary64 [Finite 300, Finite 300, Finite 300, Finite 300, Finite 300]
     [Finite (2 ^ 1023), Finite (2 ^ 1023), Finite (- (2 ^ 1023)), Finite (- (2 ^ 1023)),
      Finite (- 1)] = Inr (Finite 0)"
proof (intro conjI impI)
  assume "monotone_rounding rnd \<and> durations \<noteq> [] \<and>
      (length restDurations = length durations \<or> length restDurations = length durations - 1) \<and>
      dlt (accumulate rnd (Finite 0) restDurations) (Finite 0)"
  then show "calculateWorkRestRatio rnd durations restDurations = Inr PosInf"
    by (intro negative_rest_infinite) simp_all
next
  assume a: "ds \<noteq> [] \<and> (length rs = length ds \<or> length rs = length ds - 1) \<and> sum_list rs < 0"
  then have "dlt (accumulate exact (Finite 0) (map Finite rs)) (Finite 0)"
    by (simp add: accumulate_exact)
  with a show "calculateWorkRestRatio exact (map Finite ds) (map Finite rs) = Inr PosInf"
    by (intro negative_rest_infinite monotone_rounding_exact) simp_all
next
  have p: "binary64 (2 ^ 1023) = Finite (2 ^ 1023)" by (rule binary64_power2) simp
  have q: "(2::real) ^ 1024 \<le> 2 ^ 1023 + 2 ^ 1023" by simp
  note o = calculateWorkRestRatio_rest_overflow [OF p q]
  from o show "accumulate binary64 (Finite 0)
     [Finite (2 ^ 1023), Finite (2 ^ 1023), Finite (- (2 ^ 1023)), Finite (- (2 ^ 1023)),
      Finite (- 1)] = PosInf"
    by (rule conjunct1)
  from o
  show "calculateWorkRestRatio binary64 [Finite 300, Finite 300, Finite 300, Finite 300, Finite 300]
     [Finite (2 ^ 1023), Finite (2 ^ 1023), Finite (- (2 ^ 1023)), Finite (- (2 ^ 1023)),
      Finite (- 1)] = Inr (Finite 0)"
    by (rule conjunct2)
qed

theorem calculateWorkRestRatio_negative_rest_witness:
  "monotone_rounding exact \<and> monotone_rounding binary64 \<and> [Finite 300, Finite 300] \<noteq> [] \<and>
   length [Finite 10, Finite (- 30)] = length [Finite 300, Finite 300] \<and>
   dlt (accumulate exact (Finite 0) [Finite 10, Finite (- 30)]) (Finite 0) \<and>
   calculateWorkRestRatio exact [Finite 300, Finite 300] [Finite 10, Finite (- 30)] = Inr PosInf \<and>
   dlt (accumulate binary64 (Finite 0) [Finite 10, Finite (- 30)]) (Finite 0) \<and>
   calculateWorkRestRatio binary64 [Finite 300, Finite 300] [Finite 10, Finite (- 30)] = Inr PosInf \<and>
   [300, 300 :: real] \<noteq> [] \<and> length [- 5 :: real] = length [300, 300 :: real] - 1 \<and>
   sum_list [- 5 :: real] < 0 \<and>
   calculateWorkRestRatio exact (map Finite [300, 300]) (map Finite [- 5]) = Inr PosInf"
proof -
  have a: "dlt (accumulate exact (Finite 0) [Finite 10, Finite (- 30)]) (Finite 0)"
    by (simp add: accumulate_def exact_def)
  have b: "dlt (accumulate binary64 (Finite 0) [Finite 10, Finite (- 30)]) (Finite 0)"
    by (simp add: accumulate_def)
  have 1: "calculateWorkRestRatio exact [Finite 300, Finite 300] [Finite 10, Finite (- 30)] = Inr PosInf"
    using calculateWorkRestRatio_negative_rest
      [of exact "[Finite 300, Finite 300]" "[Finite 10, Finite (- 30)]"]
      a monotone_rounding_exact
    by simp
  have 2: "calculateWorkRestRatio binary64 [Finite 300, Finite 300] [Finite 10, Finite (- 30)] = Inr PosInf"
    using calculateWorkRestRatio_negative_rest
      [of binary64 "[Finite 300, Finite 300]" "[Finite 10, Finite (- 30)]"]
      b monotone_rounding_binary64
    by simp
  have 3: "calculateWorkRestRatio exact (map Finite [300, 300]) (map Finite [- 5]) = Inr PosInf"
    using calculateWorkRestRatio_negative_rest [of _ _ _ "[300, 300]" "[- 5]"]
    by simp
  from 1 2 3 a b monotone_rounding_exact monotone_rounding_binary64 show ?thesis by simp
qed
section \<open>Consistency and the standard deviation\<close>

lemma mean_exact:
  "xs \<noteq> [] \<Longrightarrow> mean exact (map Finite xs) = Finite (sum_list xs / real (length xs))"
  by (simp add: mean_def accumulate_exact of_size_def exact_def)

lemma squared_diffs_exact:
  "foldl (\<lambda>acc v. dadd exact acc (dmul exact (dsub exact v (Finite m)) (dsub exact v (Finite m))))
     (Finite a) (map Finite xs) = Finite (a + sum_list (map (\<lambda>x. (x - m)\<^sup>2) xs))"
  by (induction xs arbitrary: a) (simp_all add: dsub_def exact_def power2_eq_square add.assoc)

lemma standardDeviation_exact:
  assumes "2 \<le> length xs"
  shows "standardDeviation exact (map Finite xs) = Finite (sample_standard_deviation xs)"
proof -
  from assms have ne: "xs \<noteq> []" by auto
  let ?m = "sum_list xs / real (length xs)"
  let ?s = "sum_list (map (\<lambda>x. (x - ?m)\<^sup>2) xs)"
  have s: "0 \<le> ?s" by (rule sum_list_nonneg) auto
  from assms have n: "real (length xs - 1) = real (length xs) - 1" "real (length xs) - 1 > 0"
    by auto
  with s have "0 \<le> ?s / (real (length xs) - 1)" by simp
  with assms ne n show ?thesis
    by (simp add: standardDeviation_def mean_exact squared_diffs_exact of_size_def
        sample_standard_deviation_def Let_def) (simp add: exact_def)
qed

text \<open>
  C7.  \<open>standardDeviation\<close> returns \<open>0.0\<close> for fewer than two values (for every rounding
  function and all doubles).  On two or more finite numbers, in exact arithmetic, it is
  the sample standard deviation, whose divisor is \<open>n - 1\<close>.  It is not the population
  standard deviation: on \<open>[1, 3, 5]\<close> the result is 2 (also with binary64 rounding), the
  population value is not.
\<close>

theorem standardDeviation_sample:
  "(length values < 2 \<longrightarrow> standardDeviation rnd values = Finite 0) \<and>
   (2 \<le> length xs \<longrightarrow>
      standardDeviation exact (map Finite xs) = Finite (sample_standard_deviation xs)) \<and>
   standardDeviation exact [Finite 1, Finite 3, Finite 5] = Finite 2 \<and>
   standardDeviation binary64 [Finite 1, Finite 3, Finite 5] = Finite 2 \<and>
   population_standard_deviation [1, 3, 5] \<noteq> 2"
proof (intro conjI impI)
  show "standardDeviation rnd values = Finite 0" if "length values < 2"
    using that by (simp add: standardDeviation_def)
  show "standardDeviation exact (map Finite xs) = Finite (sample_standard_deviation xs)"
    if "2 \<le> length xs" using that by (rule standardDeviation_exact)
  have "sample_standard_deviation [1, 3, 5] = sqrt 4"
    by (simp add: sample_standard_deviation_def)
  also have s: "\<dots> = 2" using real_sqrt_abs [of 2] by simp
  finally have "sample_standard_deviation [1, 3, 5] = 2" .
  with standardDeviation_exact [of "[1, 3, 5]"]
  show "standardDeviation exact [Finite 1, Finite 3, Finite 5] = Finite 2" by simp
  have "mean binary64 [Finite 1, Finite 3, Finite 5] = Finite 3"
    by (simp add: mean_def accumulate_def of_size_def binary64_zero)
  then show "standardDeviation binary64 [Finite 1, Finite 3, Finite 5] = Finite 2"
    by (simp add: standardDeviation_def of_size_def dsub_def Let_def binary64_zero binary64_minus s)
  have "population_standard_deviation [1, 3, 5] = sqrt (8 / 3)"
    by (simp add: population_standard_deviation_def)
  moreover have "sqrt (8 / 3) \<noteq> 2"
  proof
    assume "sqrt (8 / 3) = 2"
    then have "(sqrt (8 / 3))\<^sup>2 = 2\<^sup>2" by simp
    then show False by simp
  qed
  ultimately show "population_standard_deviation [1, 3, 5] \<noteq> 2" by simp
qed

theorem standardDeviation_sample_witness:
  "length [Finite 7] < 2 \<and> standardDeviation exact [Finite 7] = Finite 0 \<and>
   2 \<le> length [2, 4 :: real] \<and>
   standardDeviation exact (map Finite [2, 4]) = Finite (sample_standard_deviation [2, 4])"
proof -
  have 1: "standardDeviation exact [Finite 7] = Finite 0"
    using standardDeviation_sample [of "[Finite 7]" exact] by simp
  have 2: "standardDeviation exact (map Finite [2, 4]) = Finite (sample_standard_deviation [2, 4])"
    using standardDeviation_sample [of _ _ "[2, 4]"] by simp
  from 1 2 show ?thesis by simp
qed


subsection \<open>The consistency score in closed form\<close>

lemma standardDeviation_exact_value:
  "standardDeviation exact (map Finite xs) =
     Finite (if length xs < 2 then 0 else sample_standard_deviation xs)"
proof (cases "length xs < 2")
  case True
  then show ?thesis by (simp add: standardDeviation_def)
next
  case False
  then have "2 \<le> length xs" by simp
  from standardDeviation_exact [OF this] False show ?thesis by simp
qed

lemma coefficientOfVariation_exact:
  "coefficientOfVariation exact (map Finite xs) = Finite (coefficient_of_variation xs)"
proof (cases "xs = []")
  case True
  then show ?thesis by (simp add: coefficientOfVariation_def coefficient_of_variation_def)
next
  case False
  then show ?thesis
    by (auto simp: coefficientOfVariation_def coefficient_of_variation_def mean_exact
        standardDeviation_exact_value EPSILON_def Let_def exact_def)
qed

lemma sample_standard_deviation_nonneg: "0 \<le> sample_standard_deviation xs"
proof -
  have "0 \<le> sum_list (map (\<lambda>x. (x - m)\<^sup>2) xs)" for m :: real
    by (rule sum_list_nonneg) auto
  moreover have "0 \<le> real (length xs) - 1" if "xs \<noteq> []"
    using that by (cases xs) simp_all
  ultimately show ?thesis
    by (cases "xs = []") (simp_all add: sample_standard_deviation_def Let_def)
qed

lemma coefficient_of_variation_nonneg:
  assumes "\<forall>x \<in> set xs. 0 \<le> x"
  shows "0 \<le> coefficient_of_variation xs"
proof -
  define m where "m = sum_list xs / real (length xs)"
  define s where "s = (if length xs < 2 then 0 else sample_standard_deviation xs)"
  from assms have "0 \<le> sum_list xs" by (intro sum_list_nonneg) simp
  then have m: "0 \<le> m" by (simp add: m_def)
  have s: "0 \<le> s" by (simp add: s_def sample_standard_deviation_nonneg)
  have "coefficient_of_variation xs = (if xs = [] \<or> \<bar>m\<bar> < 1 / 10 ^ 9 then 0 else s / m)"
    by (simp add: coefficient_of_variation_def Let_def m_def s_def)
  with m s show ?thesis by simp
qed

lemma intensities_as_reals: "map of_uint8 intensities = map Finite (map (\<lambda>w. real (unat w)) intensities)"
  by (simp add: of_uint8_def)

lemma calculateConsistencyScore_exact:
  assumes "2 \<le> length ds"
  shows "calculateConsistencyScore exact (map Finite ds) intensities =
    Finite (if 1 + coefficient_of_variation ds = 0 then 1
            else max 0 (min 1 (consistency_formula ds (map (\<lambda>w. real (unat w)) intensities))))"
proof -
  let ?is = "map (\<lambda>w. real (unat w)) intensities"
  have "\<forall>x \<in> set ?is. 0 \<le> x"
  proof
    fix x assume "x \<in> set ?is"
    then obtain w :: "8 word" where "x = real (unat w)" by auto
    then show "0 \<le> x" by (simp only: of_nat_0_le_iff)
  qed
  then have "0 \<le> coefficient_of_variation ?is"
    by (rule coefficient_of_variation_nonneg)
  then have i: "1 + coefficient_of_variation ?is \<noteq> 0" "0 < 1 + coefficient_of_variation ?is" by simp_all
  from assms have l: "\<not> length ds < 2" by simp
  have cd: "coefficientOfVariation exact (map Finite ds) = Finite (coefficient_of_variation ds)"
    by (rule coefficientOfVariation_exact)
  have ci: "coefficientOfVariation exact (map of_uint8 intensities) =
      Finite (coefficient_of_variation ?is)"
    by (simp only: intensities_as_reals coefficientOfVariation_exact)
  show ?thesis
  proof (cases "1 + coefficient_of_variation ds = 0")
    case True
    with l i show ?thesis
      unfolding calculateConsistencyScore_def Let_def cd ci
      by (simp add: exact_def std_min_def std_max_def signed_inf_def)
  next
    case False
    with l i show ?thesis
      unfolding calculateConsistencyScore_def Let_def cd ci
      by (auto simp: exact_def std_min_def std_max_def consistency_formula_def max_def min_def)
  qed
qed

lemma sqrt_40000: "sqrt 40000 = 200"
  using real_sqrt_abs [of 200] by simp

lemma cv_example: "coefficient_of_variation [100, 300, 500] = 2 / 3"
  by (simp add: coefficient_of_variation_def sample_standard_deviation_def Let_def sqrt_40000)

lemma cv_example_intensities: "coefficient_of_variation [3, 3, 3] = 0"
  by (simp add: coefficient_of_variation_def sample_standard_deviation_def Let_def)

lemma score_example_exact:
  "calculateConsistencyScore exact [Finite 100, Finite 300, Finite 500] [3, 3, 3] = Finite 0.76"
  using calculateConsistencyScore_exact [of "[100, 300, 500]" "[3, 3, 3]"]
  by (simp add: cv_example cv_example_intensities consistency_formula_def)

lemma mean_example_binary64: "mean binary64 [Finite 100, Finite 300, Finite 500] = Finite 300"
  by (simp add: mean_def accumulate_def of_size_def binary64_zero)

lemma standardDeviation_example_binary64: "standardDeviation binary64 [Finite 100, Finite 300, Finite 500] = Finite 200"
  by (simp add: standardDeviation_def mean_example_binary64 of_size_def dsub_def Let_def binary64_zero sqrt_40000)

lemma EPSILON_binary64_small: "\<exists>e. EPSILON binary64 = Finite e \<and> 0 \<le> e \<and> e \<le> 1"
proof -
  have "dle (binary64 0) (binary64 (1 / 10 ^ 9))" "dle (binary64 (1 / 10 ^ 9)) (binary64 1)"
    by (rule monotone_roundingD [OF monotone_rounding_binary64], simp)+
  then show ?thesis
    unfolding EPSILON_def by (cases "binary64 (1 / 10 ^ 9)") (simp_all add: binary64_zero)
qed

lemma coefficientOfVariation_example_binary64: "coefficientOfVariation binary64 [Finite 100, Finite 300, Finite 500] = binary64 (2 / 3)"
  using EPSILON_binary64_small by (auto simp: coefficientOfVariation_def mean_example_binary64 standardDeviation_example_binary64 Let_def)

lemma mean_intensities_binary64: "mean binary64 (map of_uint8 [3, 3, 3]) = Finite 3"
  by (simp add: mean_def accumulate_def of_size_def of_uint8_def binary64_zero)

lemma standardDeviation_intensities_binary64: "standardDeviation binary64 (map of_uint8 [3, 3, 3]) = Finite 0"
  using mean_intensities_binary64
  by (simp add: standardDeviation_def of_size_def of_uint8_def dsub_def Let_def binary64_zero)

lemma coefficientOfVariation_intensities_binary64: "coefficientOfVariation binary64 (map of_uint8 [3, 3, 3]) = Finite 0"
  using EPSILON_binary64_small mean_intensities_binary64 standardDeviation_intensities_binary64
  by (auto simp: coefficientOfVariation_def Let_def binary64_zero of_uint8_def)

lemma binary64_two_thirds: "binary64 (2 / 3) = Finite (6004799503160661 / 2 ^ 53)"
  by (simp add: binary64_eval)

lemma score_example_binary64:
  "calculateConsistencyScore binary64 [Finite 100, Finite 300, Finite 500] [3, 3, 3] =
     Finite (3422735716801577 / 2 ^ 52)"
  unfolding calculateConsistencyScore_def Let_def coefficientOfVariation_example_binary64 coefficientOfVariation_intensities_binary64 binary64_two_thirds
  by (simp add: std_min_def std_max_def) (simp add: binary64_eval)

lemma binary64_076: "binary64 0.76 = Finite (3422735716801577 / 2 ^ 52)"
  by (simp add: binary64_eval)

lemma dmul_NaN [simp]: "dmul rnd x NaN = NaN"
  by (cases x) simp_all

lemma coefficientOfVariation_overflow:
  assumes "binary64 d = Finite d" and "2 ^ 1024 \<le> d + d"
  shows "coefficientOfVariation binary64 [Finite d, Finite d] = NaN"
proof -
  have m: "mean binary64 [Finite d, Finite d] = PosInf"
    using assms
    by (simp add: mean_def accumulate_def of_size_def binary64_zero binary64_overflows
        signed_inf_def)
  have s: "standardDeviation binary64 [Finite d, Finite d] = PosInf"
    by (simp add: standardDeviation_def m of_size_def dsub_def Let_def binary64_zero
        signed_inf_def)
  show ?thesis
    by (simp add: coefficientOfVariation_def m s Let_def)
qed

lemma calculateConsistencyScore_overflow:
  assumes "binary64 d = Finite d" and "2 ^ 1024 \<le> d + d"
  shows "calculateConsistencyScore binary64 [Finite d, Finite d] intensities = Finite 1"
  unfolding calculateConsistencyScore_def Let_def coefficientOfVariation_overflow [OF assms]
  by (simp add: std_min_def std_max_def)

lemma score_example_overflow:
  "calculateConsistencyScore binary64 [Finite (2 ^ 1023), Finite (2 ^ 1023)] [3, 3] = Finite 1"
proof -
  have "binary64 (2 ^ 1023) = Finite (2 ^ 1023)" by (rule binary64_power2) simp
  then show ?thesis by (intro calculateConsistencyScore_overflow) simp_all
qed

text \<open>
  C6.  \<open>calculateConsistencyScore\<close> returns \<open>1.0\<close> when there are fewer than two durations.
  Otherwise it is \<open>0.6 * (1 / (1 + cv durations)) + 0.4 * (1 / (1 + cv intensities))\<close>, clamped
  with \<^verbatim>\<open>std::min\<close> and \<^verbatim>\<open>std::max\<close>, where \<open>cv\<close> is the coefficient of variation the
  program computes and the intensities are converted to double (for every rounding function
  and all doubles).  In exact arithmetic on finite durations, \<open>cv\<close> is the sample standard
  deviation divided by the mean (0 for a mean below \<open>1e-9\<close> in absolute value), and the
  score is the real number \<open>0.6 / (1 + cv durations) + 0.4 / (1 + cv intensities)\<close> clamped to
  \<open>[0, 1]\<close>; where \<open>1 + cv durations\<close> is zero (possible only with negative durations)
  the quotient is infinite and the clamped score is 1.  For the durations
  \<open>[100, 300, 500]\<close> and intensities \<open>[3, 3, 3]\<close> the coefficient of variation is \<open>2/3\<close>
  and the score is \<open>0.76\<close>, in exact arithmetic and, rounded, in binary64.  For two
  durations \<open>2^1023\<close> the mean overflows in binary64, the coefficient of variation is NaN
  and the clamp returns 1.
\<close>

theorem calculateConsistencyScore_formula:
  "(length durations < 2 \<longrightarrow> calculateConsistencyScore rnd durations intensities = Finite 1) \<and>
   (2 \<le> length durations \<longrightarrow>
      calculateConsistencyScore rnd durations intensities =
        std_max (Finite 0) (std_min (Finite 1)
          (dadd rnd
             (dmul rnd (rnd 0.6)
                (ddiv rnd (Finite 1) (dadd rnd (Finite 1) (coefficientOfVariation rnd durations))))
             (dmul rnd (rnd 0.4)
                (ddiv rnd (Finite 1)
                   (dadd rnd (Finite 1) (coefficientOfVariation rnd (map of_uint8 intensities)))))))) \<and>
   coefficientOfVariation exact (map Finite xs) = Finite (coefficient_of_variation xs) \<and>
   (2 \<le> length ds \<longrightarrow>
      calculateConsistencyScore exact (map Finite ds) intensities =
        Finite (if 1 + coefficient_of_variation ds = 0 then 1
                else max 0 (min 1
                  (consistency_formula ds (map (\<lambda>w. real (unat w)) intensities))))) \<and>
   coefficient_of_variation [100, 300, 500] = 2 / 3 \<and>
   calculateConsistencyScore exact [Finite 100, Finite 300, Finite 500] [3, 3, 3] = Finite 0.76 \<and>
   calculateConsistencyScore binary64 [Finite 100, Finite 300, Finite 500] [3, 3, 3] =
     binary64 0.76 \<and>
   calculateConsistencyScore binary64 [Finite (2 ^ 1023), Finite (2 ^ 1023)] [3, 3] = Finite 1"
proof (intro conjI impI)
  show "calculateConsistencyScore rnd durations intensities = Finite 1"
    if "length durations < 2"
    using that by (simp add: calculateConsistencyScore_def)
  show "calculateConsistencyScore rnd durations intensities =
        std_max (Finite 0) (std_min (Finite 1)
          (dadd rnd
             (dmul rnd (rnd 0.6)
                (ddiv rnd (Finite 1) (dadd rnd (Finite 1) (coefficientOfVariation rnd durations))))
             (dmul rnd (rnd 0.4)
                (ddiv rnd (Finite 1)
                   (dadd rnd (Finite 1) (coefficientOfVariation rnd (map of_uint8 intensities)))))))"
    if "2 \<le> length durations"
    using that by (simp add: calculateConsistencyScore_def Let_def)
  show "coefficientOfVariation exact (map Finite xs) = Finite (coefficient_of_variation xs)"
    by (rule coefficientOfVariation_exact)
  show "calculateConsistencyScore exact (map Finite ds) intensities =
        Finite (if 1 + coefficient_of_variation ds = 0 then 1
                else max 0 (min 1
                  (consistency_formula ds (map (\<lambda>w. real (unat w)) intensities))))"
    if "2 \<le> length ds"
    using that by (rule calculateConsistencyScore_exact)
  show "coefficient_of_variation [100, 300, 500] = 2 / 3"
    by (rule cv_example)
  show "calculateConsistencyScore exact [Finite 100, Finite 300, Finite 500] [3, 3, 3] = Finite 0.76"
    by (rule score_example_exact)
  show "calculateConsistencyScore binary64 [Finite 100, Finite 300, Finite 500] [3, 3, 3] =
     binary64 0.76"
    by (simp only: score_example_binary64 binary64_076)
  show "calculateConsistencyScore binary64 [Finite (2 ^ 1023), Finite (2 ^ 1023)] [3, 3] = Finite 1"
    by (rule score_example_overflow)
qed

theorem calculateConsistencyScore_formula_witness:
  "length [Finite 7] < 2 \<and> calculateConsistencyScore binary64 [Finite 7] [4] = Finite 1 \<and>
   2 \<le> length [Finite 100, Finite 300, Finite 500] \<and>
   calculateConsistencyScore exact [Finite 100, Finite 300, Finite 500] [3, 3, 3] =
     std_max (Finite 0) (std_min (Finite 1)
       (dadd exact
          (dmul exact (exact 0.6)
             (ddiv exact (Finite 1)
                (dadd exact (Finite 1)
                   (coefficientOfVariation exact [Finite 100, Finite 300, Finite 500]))))
          (dmul exact (exact 0.4)
             (ddiv exact (Finite 1)
                (dadd exact (Finite 1) (coefficientOfVariation exact (map of_uint8 [3, 3, 3]))))))) \<and>
   2 \<le> length [100, 300, 500 :: real] \<and>
   calculateConsistencyScore exact (map Finite [100, 300, 500]) [3, 3, 3] =
     Finite (if 1 + coefficient_of_variation [100, 300, 500] = 0 then 1
             else max 0 (min 1
               (consistency_formula [100, 300, 500] (map (\<lambda>w. real (unat w)) [3, 3, 3 :: 8 word]))))"
proof -
  have 1: "calculateConsistencyScore binary64 [Finite 7] [4] = Finite 1"
    using calculateConsistencyScore_formula [of "[Finite 7]" binary64 "[4]"] by simp
  have 2: "calculateConsistencyScore exact [Finite 100, Finite 300, Finite 500] [3, 3, 3] =
     std_max (Finite 0) (std_min (Finite 1)
       (dadd exact
          (dmul exact (exact 0.6)
             (ddiv exact (Finite 1)
                (dadd exact (Finite 1)
                   (coefficientOfVariation exact [Finite 100, Finite 300, Finite 500]))))
          (dmul exact (exact 0.4)
             (ddiv exact (Finite 1)
                (dadd exact (Finite 1) (coefficientOfVariation exact (map of_uint8 [3, 3, 3])))))))"
    using calculateConsistencyScore_formula
      [of "[Finite 100, Finite 300, Finite 500]" exact "[3, 3, 3]"]
    by simp
  have 3: "calculateConsistencyScore exact (map Finite [100, 300, 500]) [3, 3, 3] =
     Finite (if 1 + coefficient_of_variation [100, 300, 500] = 0 then 1
             else max 0 (min 1
               (consistency_formula [100, 300, 500] (map (\<lambda>w. real (unat w)) [3, 3, 3 :: 8 word]))))"
    using calculateConsistencyScore_formula [of _ _ "[3, 3, 3]" _ "[100, 300, 500]"]
    by simp
  from 1 2 3 show ?thesis by simp
qed
section \<open>The fields of the result\<close>

lemma scenario_validate:
  "validateInputs [Finite 180, Finite 240, Finite 300, Finite 240, Finite 180] [2, 3, 5, 4, 2] = Inr ()"
  by (simp add: validateInputs_def MIN_DURATION_def MAX_DURATION_def MIN_INTENSITY_def
      MAX_INTENSITY_def)

lemma scenario_exact:
  "\<exists>r. analyze exact [Finite 180, Finite 240, Finite 300, Finite 240, Finite 180] [2, 3, 5, 4, 2] [] = Inr r \<and>
     totalActiveTime r = Finite 1140 \<and> averageIntensity r = Finite 3.2 \<and>
     totalWorkVolume r = Finite 3900"
proof -
  let ?d = "[Finite 180, Finite 240, Finite 300, Finite 240, Finite 180]"
  let ?i = "[2, 3, 5, 4, 2] :: 8 word list"
  obtain x where x: "calculateWorkRestRatio exact ?d [] = Inr x"
    using calculateWorkRestRatio_no_rest by blast
  have w: "weighted_sum exact of_uint8 (Finite 0) ?d ?i = Inr (Finite 3900)"
    by (simp add: of_uint8_def exact_def)
  have t: "calculateTotalActiveTime exact ?d = Finite 1140"
    by (simp add: calculateTotalActiveTime_def accumulate_def exact_def)
  have a: "ddiv exact (foldl (\<lambda>acc intensity. dadd exact acc (of_uint8 intensity)) (Finite 0) ?i)
               (of_size (length ?i)) = Finite 3.2"
    by (simp add: of_uint8_def of_size_def exact_def)
  from analyze_fields [OF scenario_validate x w] t a show ?thesis by auto
qed

lemma scenario_binary64:
  "\<exists>r. analyze binary64 [Finite 180, Finite 240, Finite 300, Finite 240, Finite 180] [2, 3, 5, 4, 2] [] = Inr r \<and>
     totalActiveTime r = Finite 1140 \<and> averageIntensity r = binary64 3.2 \<and>
     totalWorkVolume r = Finite 3900"
proof -
  let ?d = "[Finite 180, Finite 240, Finite 300, Finite 240, Finite 180]"
  let ?i = "[2, 3, 5, 4, 2] :: 8 word list"
  obtain x where x: "calculateWorkRestRatio binary64 ?d [] = Inr x"
    using calculateWorkRestRatio_no_rest by blast
  have w: "weighted_sum binary64 of_uint8 (Finite 0) ?d ?i = Inr (Finite 3900)"
    by (simp add: of_uint8_def binary64_zero)
  have t: "calculateTotalActiveTime binary64 ?d = Finite 1140"
    by (simp add: calculateTotalActiveTime_def accumulate_def binary64_zero)
  have a: "ddiv binary64 (foldl (\<lambda>acc intensity. dadd binary64 acc (of_uint8 intensity)) (Finite 0) ?i)
               (of_size (length ?i)) = binary64 3.2"
    by (simp add: of_uint8_def of_size_def binary64_zero)
  from analyze_fields [OF scenario_validate x w] t a show ?thesis by auto
qed

text \<open>
  C8, as stated, fails in one number: on the durations \<open>[180, 240, 300, 240, 180]\<close> and the
  intensities \<open>[2, 3, 5, 4, 2]\<close> the total work volume is
  \<open>360 + 720 + 1500 + 960 + 360 = 3900\<close>, not 3620.
\<close>

theorem analyze_scenario_counterexample:
  "(case analyze binary64 [Finite 180, Finite 240, Finite 300, Finite 240, Finite 180] [2, 3, 5, 4, 2] [] of
      Inl e \<Rightarrow> False
    | Inr r \<Rightarrow> totalWorkVolume r = Finite 3900 \<and> totalWorkVolume r \<noteq> Finite 3620)"
  using scenario_binary64 by auto

text \<open>
  C8, amended.  On this input \<open>analyze\<close> succeeds with the total active time 1140, the
  average intensity 3.2 and the total work volume 3900.  This holds in exact arithmetic, and
  with binary64 rounding, where the average is the double nearest to 3.2 (the value of the
  literal \<^verbatim>\<open>3.2\<close>), which is \<open>3602879701896397 / 2^50\<close>.
\<close>

theorem analyze_scenario:
  "(\<exists>r. analyze exact [Finite 180, Finite 240, Finite 300, Finite 240, Finite 180] [2, 3, 5, 4, 2] [] = Inr r \<and>
      totalActiveTime r = Finite 1140 \<and> averageIntensity r = Finite 3.2 \<and>
      totalWorkVolume r = Finite 3900) \<and>
   (\<exists>r. analyze binary64 [Finite 180, Finite 240, Finite 300, Finite 240, Finite 180] [2, 3, 5, 4, 2] [] = Inr r \<and>
      totalActiveTime r = Finite 1140 \<and> averageIntensity r = binary64 3.2 \<and>
      totalWorkVolume r = Finite 3900) \<and>
   binary64 3.2 = Finite (3602879701896397 / 2 ^ 50)"
proof (intro conjI)
  show "binary64 3.2 = Finite (3602879701896397 / 2 ^ 50)"
    by (simp add: binary64_eval)
qed (rule scenario_exact, rule scenario_binary64)

section \<open>Active time and work volume\<close>

lemma durations_inside_finite:
  "list_all duration_inside durations \<Longrightarrow>
   \<exists>ds. durations = map Finite ds \<and> (\<forall>d \<in> set ds. 0 \<le> d \<and> d \<le> 86400)"
proof (induction durations)
  case Nil
  then show ?case by simp
next
  case (Cons a durations)
  then obtain ds where ds: "durations = map Finite ds" "\<forall>d \<in> set ds. 0 \<le> d \<and> d \<le> 86400"
    by auto
  from Cons.prems obtain x where x: "a = Finite x" "0 \<le> x" "x \<le> 86400"
    by (cases a) (auto simp: duration_inside_def)
  with ds have "a # durations = map Finite (x # ds) \<and> (\<forall>d \<in> set (x # ds). 0 \<le> d \<and> d \<le> 86400)"
    by simp
  then show ?case by (rule exI [of _ "x # ds"])
qed

text \<open>
  Where binary64 sums stop growing: at \<open>2^71\<close> the doubles are \<open>2^19\<close> apart, so adding a
  duration (at most \<open>86400 < 2^17\<close>) changes nothing; at \<open>2^73\<close> they are \<open>2^21\<close> apart, and a
  weighted duration is at most \<open>432000 < 2^19\<close>.
\<close>

lemma absorb_71: "binary64 (2 ^ 71 + 2 ^ 17) = Finite (2 ^ 71)"
  by (simp add: binary64_eval)

lemma absorb_73: "binary64 (2 ^ 73 + 2 ^ 19) = Finite (2 ^ 73)"
  by (simp add: binary64_eval)

lemma monotone_rounding_not_NaN: "monotone_rounding rnd \<Longrightarrow> rnd x \<noteq> NaN"
proof
  assume "monotone_rounding rnd" "rnd x = NaN"
  with monotone_roundingD [of rnd x x] show False by simp
qed

lemma dle_zero_cases: "dle (Finite 0) a \<longleftrightarrow> (\<exists>r. a = Finite r \<and> 0 \<le> r) \<or> a = PosInf"
  by (cases a) simp_all

lemma dle_between:
  "dle (Finite l) z \<Longrightarrow> dle z (Finite u) \<Longrightarrow> \<exists>r. z = Finite r \<and> l \<le> r \<and> r \<le> u"
  by (cases z) simp_all

lemma dle_PosInf: "dle z PosInf \<longleftrightarrow> z \<noteq> NaN"
  by (cases z) simp_all

lemma dle_Finite_left: "dle (Finite l) z \<longleftrightarrow> (\<exists>r. z = Finite r \<and> l \<le> r) \<or> z = PosInf"
  by (cases z) simp_all

lemma sums_ordered:
  assumes m: "monotone_rounding rnd"
    and len: "length ds = length ws"
    and d: "\<forall>d \<in> set ds. 0 \<le> d \<and> rnd d = Finite d"
    and w: "\<forall>w \<in> set ws. 1 \<le> unat w"
    and ab: "dle (Finite 0) a" "dle a b"
  shows "\<exists>v. weighted_sum rnd of_uint8 b (map Finite ds) ws = Inr v \<and>
           dle (Finite 0) (accumulate rnd a (map Finite ds)) \<and>
           dle (accumulate rnd a (map Finite ds)) v"
  using len d w ab
proof (induction ds ws arbitrary: a b rule: list_induct2)
  case Nil
  then show ?case by (simp add: accumulate_def)
next
  case (Cons x xs y ys)
  note mono = monotone_roundingD [OF m]
  from m have r0: "rnd 0 = Finite 0" by (simp add: monotone_rounding_def)
  note nn = monotone_rounding_not_NaN [OF m]
  from Cons.prems have x: "0 \<le> x" "rnd x = Finite x" and "1 \<le> unat y" by simp_all
  then have y: "1 \<le> real (unat y)" by (simp only: of_nat_1 [symmetric, where 'a = real] of_nat_le_iff)
  from x(1) y have xy: "x * 1 \<le> x * real (unat y)" by (intro mult_left_mono) simp_all
  define p where "p = rnd (x * real (unat y))"
  from xy have "dle (rnd x) p" unfolding p_def by (intro mono) simp
  with x(2) have p: "(\<exists>r. p = Finite r \<and> x \<le> r) \<or> p = PosInf"
    by (simp add: dle_Finite_left)
  define a2 where "a2 = dadd rnd a (Finite x)"
  define b2 where "b2 = dadd rnd b p"
  from Cons.prems(3) have a: "(\<exists>r. a = Finite r \<and> 0 \<le> r) \<or> a = PosInf"
    by (simp add: dle_zero_cases)
  have 1: "dle (Finite 0) a2"
  proof -
    from a show ?thesis
    proof
      assume "\<exists>r. a = Finite r \<and> 0 \<le> r"
      then obtain r where r: "a = Finite r" "0 \<le> r" by blast
      with x(1) have "dle (rnd 0) (rnd (r + x))" by (intro mono) simp
      with r r0 show ?thesis by (simp add: a2_def)
    next
      assume "a = PosInf"
      then show ?thesis by (simp add: a2_def)
    qed
  qed
  have 2: "dle a2 b2"
  proof (cases a)
    case (Finite r)
    show ?thesis
    proof (cases b)
      case (Finite s)
      with \<open>a = Finite r\<close> Cons.prems(4) have rs: "r \<le> s" by simp
      from p show ?thesis
      proof
        assume "\<exists>q. p = Finite q \<and> x \<le> q"
        then obtain q where q: "p = Finite q" "x \<le> q" by blast
        with rs have "dle (rnd (r + x)) (rnd (s + q))" by (intro mono) simp
        with q \<open>a = Finite r\<close> Finite show ?thesis by (simp add: a2_def b2_def)
      next
        assume "p = PosInf"
        with \<open>a = Finite r\<close> Finite nn show ?thesis
          by (simp add: a2_def b2_def dle_PosInf)
      qed
    next
      case PosInf
      with p have "b2 = PosInf" by (auto simp: b2_def)
      with \<open>a = Finite r\<close> nn show ?thesis by (simp add: a2_def dle_PosInf)
    next
      case NegInf
      with Finite Cons.prems(4) show ?thesis by simp
    next
      case NaN
      with Finite Cons.prems(4) show ?thesis by simp
    qed
  next
    case PosInf
    with Cons.prems(4) have "b = PosInf" by (cases b) simp_all
    with p have "b2 = PosInf" by (auto simp: b2_def)
    with PosInf show ?thesis by (simp add: a2_def)
  next
    case NegInf
    with Cons.prems(3) show ?thesis by simp
  next
    case NaN
    with Cons.prems(3) show ?thesis by simp
  qed
  from Cons.prems have "\<forall>d \<in> set xs. 0 \<le> d \<and> rnd d = Finite d" "\<forall>w \<in> set ys. 1 \<le> unat w"
    by simp_all
  from Cons.IH [OF this 1 2]
  show ?case by (simp add: accumulate_def of_uint8_def a2_def b2_def p_def)
qed

lemma sums_ordered_finite:
  assumes m: "monotone_rounding rnd"
    and f: "\<forall>x. rnd x \<noteq> PosInf"
    and len: "length ds = length ws"
    and d: "\<forall>d \<in> set ds. 0 \<le> d \<and> rnd d = Finite d"
    and w: "\<forall>w \<in> set ws. 1 \<le> unat w"
    and ab: "0 \<le> a" "a \<le> b"
  shows "\<exists>t v. accumulate rnd (Finite a) (map Finite ds) = Finite t \<and>
           weighted_sum rnd of_uint8 (Finite b) (map Finite ds) ws = Inr (Finite v) \<and> t \<le> v"
  using len d w ab
proof (induction ds ws arbitrary: a b rule: list_induct2)
  case Nil
  then show ?case by (simp add: accumulate_def)
next
  case (Cons x xs y ys)
  note mono = monotone_roundingD [OF m]
  from m have r0: "rnd 0 = Finite 0" by (simp add: monotone_rounding_def)
  have fin: "\<exists>r. rnd z = Finite r \<and> l \<le> r" if "dle (Finite l) (rnd z)" for z l
    using that f by (simp add: dle_Finite_left)
  from Cons.prems have x: "0 \<le> x" "rnd x = Finite x" and "1 \<le> unat y" by simp_all
  then have y: "1 \<le> real (unat y)" by (simp only: of_nat_1 [symmetric, where 'a = real] of_nat_le_iff)
  from x(1) y have xy: "x * 1 \<le> x * real (unat y)" by (intro mult_left_mono) simp_all
  then have "dle (rnd x) (rnd (x * real (unat y)))" by (intro mono) simp
  with x(2) fin obtain q where q: "rnd (x * real (unat y)) = Finite q" "x \<le> q" by auto
  from Cons.prems(3) x(1) have "dle (rnd 0) (rnd (a + x))" by (intro mono) simp
  with r0 fin obtain a2 where a2: "rnd (a + x) = Finite a2" "0 \<le> a2" by auto
  from q(2) Cons.prems(4) have "dle (rnd (a + x)) (rnd (b + q))" by (intro mono) simp
  with a2(1) fin obtain b2 where b2: "rnd (b + q) = Finite b2" "a2 \<le> b2" by auto
  from Cons.prems have "\<forall>d \<in> set xs. 0 \<le> d \<and> rnd d = Finite d" "\<forall>w \<in> set ys. 1 \<le> unat w"
    by simp_all
  from Cons.IH [OF this a2(2) b2(2)] q(1) a2(1) b2(1)
  show ?case by (simp add: accumulate_def of_uint8_def)
qed

lemma sums_ordered_binary64:
  assumes len: "length ds = length ws"
    and d: "\<forall>d \<in> set ds. 0 \<le> d \<and> d \<le> 86400 \<and> binary64 d = Finite d"
    and w: "\<forall>w \<in> set ws. 1 \<le> unat w \<and> unat w \<le> 5"
    and ab: "0 \<le> a" "a \<le> b" "a \<le> 2 ^ 71" "b \<le> 2 ^ 73"
  shows "\<exists>t v. accumulate binary64 (Finite a) (map Finite ds) = Finite t \<and>
           weighted_sum binary64 of_uint8 (Finite b) (map Finite ds) ws = Inr (Finite v) \<and> t \<le> v"
  using len d w ab
proof (induction ds ws arbitrary: a b rule: list_induct2)
  case Nil
  then show ?case by (simp add: accumulate_def)
next
  case (Cons x xs y ys)
  note mono = monotone_roundingD [OF monotone_rounding_binary64]
  from Cons.prems have x: "0 \<le> x" "x \<le> 86400" "binary64 x = Finite x"
    and "1 \<le> unat y" "unat y \<le> 5" by simp_all
  then have "real 1 \<le> real (unat y)" "real (unat y) \<le> real 5" by (simp_all only: of_nat_le_iff)
  then have y: "1 \<le> real (unat y)" "real (unat y) \<le> 5" by (simp_all only: of_nat_1 of_nat_numeral)
  from x(1) y(1) have xy: "x * 1 \<le> x * real (unat y)" by (intro mult_left_mono) simp_all
  from x(1,2) y have "x * real (unat y) \<le> 86400 * 5" by (intro mult_mono) simp_all
  then have xy2: "x * real (unat y) \<le> 2 ^ 19" by simp
  from xy have "dle (binary64 x) (binary64 (x * real (unat y)))" by (intro mono) simp
  then have ql: "dle (Finite x) (binary64 (x * real (unat y)))" by (simp only: x(3))
  have "binary64 (2 ^ 19) = Finite (2 ^ 19)" by (rule binary64_power2) simp
  with mono [OF xy2] have qu: "dle (binary64 (x * real (unat y))) (Finite (2 ^ 19))" by (simp only:)
  from dle_between [OF ql qu]
  obtain q where q: "binary64 (x * real (unat y)) = Finite q" "x \<le> q" "q \<le> 2 ^ 19" by blast
  from Cons.prems(3) x(1) have "dle (binary64 0) (binary64 (a + x))" by (intro mono) simp
  then have al: "dle (Finite 0) (binary64 (a + x))" by (simp only: binary64_zero)
  from Cons.prems(5) x(2) have "dle (binary64 (a + x)) (binary64 (2 ^ 71 + 2 ^ 17))"
    by (intro mono) simp
  then have au: "dle (binary64 (a + x)) (Finite (2 ^ 71))" by (simp only: absorb_71)
  from dle_between [OF al au]
  obtain a2 where a2: "binary64 (a + x) = Finite a2" "0 \<le> a2" "a2 \<le> 2 ^ 71" by blast
  from q(2) Cons.prems(4) have "dle (binary64 (a + x)) (binary64 (b + q))" by (intro mono) simp
  then have bl: "dle (Finite a2) (binary64 (b + q))" by (simp only: a2(1))
  from Cons.prems(6) q(3) have "dle (binary64 (b + q)) (binary64 (2 ^ 73 + 2 ^ 19))"
    by (intro mono) simp
  then have bu: "dle (binary64 (b + q)) (Finite (2 ^ 73))" by (simp only: absorb_73)
  from dle_between [OF bl bu]
  obtain b2 where b2: "binary64 (b + q) = Finite b2" "a2 \<le> b2" "b2 \<le> 2 ^ 73" by blast
  from Cons.prems
  have "\<forall>d \<in> set xs. 0 \<le> d \<and> d \<le> 86400 \<and> binary64 d = Finite d"
    "\<forall>w \<in> set ys. 1 \<le> unat w \<and> unat w \<le> 5"
    by simp_all
  from Cons.IH [OF this a2(2) b2(2) a2(3) b2(3)] q(1) a2(1) b2(1)
  show ?case by (simp add: accumulate_def of_uint8_def)
qed

lemma sums_exact:
  assumes len: "length ds = length ws"
    and d: "\<forall>d \<in> set ds. 0 \<le> d"
    and w: "\<forall>w \<in> set ws. 1 \<le> unat w \<and> unat w \<le> 5"
    and ab: "a \<le> b" "b \<le> 5 * a"
  shows "\<exists>t v. accumulate exact (Finite a) (map Finite ds) = Finite t \<and>
           weighted_sum exact of_uint8 (Finite b) (map Finite ds) ws = Inr (Finite v) \<and>
           t \<le> v \<and> v \<le> 5 * t"
  using len d w ab
proof (induction ds ws arbitrary: a b rule: list_induct2)
  case Nil
  then show ?case by (simp add: accumulate_def)
next
  case (Cons x xs y ys)
  from Cons.prems have x: "0 \<le> x" and "1 \<le> unat y" "unat y \<le> 5" by simp_all
  then have "real 1 \<le> real (unat y)" "real (unat y) \<le> real 5" by (simp_all only: of_nat_le_iff)
  then have y: "1 \<le> real (unat y)" "real (unat y) \<le> 5" by (simp_all only: of_nat_1 of_nat_numeral)
  from x y(1) have 1: "x * 1 \<le> x * real (unat y)" by (intro mult_left_mono) simp_all
  from x y(2) have 2: "x * real (unat y) \<le> x * 5" by (intro mult_left_mono) simp_all
  from 1 2 Cons.prems(3,4) have "a + x \<le> b + x * real (unat y)" "b + x * real (unat y) \<le> 5 * (a + x)"
    by simp_all
  from Cons.IH [OF _ _ this] Cons.prems(1,2)
  show ?case by (simp add: accumulate_def of_uint8_def exact_def)
qed

lemma tiny_input:
  "valid_input [Finite 1, Finite (1 / 2 ^ 53)] [5, 5] \<and>
   list_all (representable binary64) [Finite 1, Finite (1 / 2 ^ 53)]"
  by (simp add: valid_input_def duration_inside_def intensity_inside_def representable_def)
     (simp add: binary64_eval)

lemma tiny_validate: "validateInputs [Finite 1, Finite (1 / 2 ^ 53)] [5, 5] = Inr ()"
  using tiny_input by (simp add: validateInputs_valid)

text \<open>
  C9, as stated, fails under binary64 rounding.  The durations \<open>1\<close> and \<open>2^(-53)\<close> with the
  intensities 5 and 5 pass validation.  The active time is \<open>1 + 2^(-53)\<close> rounded, which is
  \<open>1\<close> (a tie, resolved to the even significand).  The work volume is \<open>5 + 5 * 2^(-53)\<close>
  rounded; the doubles around 5 are \<open>2^(-50)\<close> apart and \<open>5 * 2^(-53)\<close> is more than half of
  that, so the result is \<open>5 + 2^(-50)\<close>, which exceeds five times the active time.  Both
  products are exact, so the outcome is the same when the compiler fuses the multiplication
  with the addition.
\<close>

theorem work_volume_upper_bound_counterexample:
  "valid_input [Finite 1, Finite (1 / 2 ^ 53)] [5, 5] \<and>
   list_all (representable binary64) [Finite 1, Finite (1 / 2 ^ 53)] \<and>
   (case analyze binary64 [Finite 1, Finite (1 / 2 ^ 53)] [5, 5] [] of
      Inl e \<Rightarrow> False
    | Inr r \<Rightarrow> totalActiveTime r = Finite 1 \<and> totalWorkVolume r = Finite (5 + 1 / 2 ^ 50) \<and>
        (5::real) * 1 < 5 + 1 / 2 ^ 50)"
proof -
  let ?d = "[Finite 1, Finite (1 / 2 ^ 53)]"
  let ?i = "[5, 5] :: 8 word list"
  obtain x where x: "calculateWorkRestRatio binary64 ?d [] = Inr x"
    using calculateWorkRestRatio_no_rest by blast
  have w: "weighted_sum binary64 of_uint8 (Finite 0) ?d ?i = Inr (Finite (5 + 1 / 2 ^ 50))"
    by (simp add: of_uint8_def) (simp add: binary64_eval)
  have t: "calculateTotalActiveTime binary64 ?d = Finite 1"
    by (simp add: calculateTotalActiveTime_def accumulate_def) (simp add: binary64_eval)
  from analyze_fields [OF tiny_validate x w] t tiny_input show ?thesis by auto
qed

text \<open>
  C9, amended.  For an input that passes validation and a result \<open>r\<close> of \<open>analyze\<close>: the
  total active time is at most the total work volume, as doubles, for every monotone
  rounding function that leaves the input durations as they are; both are finite numbers
  when the rounding never overflows, and also with binary64 rounding, where the two sums of
  a valid input stay below \<open>2^71\<close> and \<open>2^73\<close> however long the input is.  In exact
  arithmetic the total work volume is also at most five times the total active time.
  Without rest durations there is such a result for every valid input.
\<close>

theorem work_volume_bounds:
  "(monotone_rounding rnd \<and> list_all (representable rnd) durations \<and>
      valid_input durations intensities \<and>
      analyze rnd durations intensities restDurations = Inr r \<longrightarrow>
      dle (totalActiveTime r) (totalWorkVolume r) \<and>
      ((\<forall>x. rnd x \<noteq> PosInf) \<longrightarrow>
         (\<exists>t v. totalActiveTime r = Finite t \<and> totalWorkVolume r = Finite v \<and> t \<le> v))) \<and>
   (list_all (representable binary64) durations \<and>
      valid_input durations intensities \<and>
      analyze binary64 durations intensities restDurations = Inr r'' \<longrightarrow>
      (\<exists>t v. totalActiveTime r'' = Finite t \<and> totalWorkVolume r'' = Finite v \<and> t \<le> v)) \<and>
   (valid_input durations intensities \<and>
      analyze exact durations intensities restDurations = Inr r' \<longrightarrow>
      (\<exists>t v. totalActiveTime r' = Finite t \<and> totalWorkVolume r' = Finite v \<and> t \<le> v \<and> v \<le> 5 * t)) \<and>
   (valid_input durations intensities \<longrightarrow>
      (\<exists>r. analyze rnd durations intensities [] = Inr r))"
proof (intro conjI impI)
  assume v: "valid_input durations intensities"
  obtain x where x: "calculateWorkRestRatio rnd durations [] = Inr x"
    using calculateWorkRestRatio_no_rest by blast
  from v have len: "length durations \<le> length intensities" by (simp add: valid_input_def)
  from weighted_sum_returns [OF len] obtain w
    where w: "weighted_sum rnd of_uint8 (Finite 0) durations intensities = Inr w" by blast
  from analyze_fields [OF validateInputs_valid [OF v] x w len]
  show "\<exists>r. analyze rnd durations intensities [] = Inr r" by blast
next
  assume a: "monotone_rounding rnd \<and> list_all (representable rnd) durations \<and>
      valid_input durations intensities \<and>
      analyze rnd durations intensities restDurations = Inr r"
  then obtain ds where ds: "durations = map Finite ds" "\<forall>d \<in> set ds. 0 \<le> d \<and> d \<le> 86400"
    using durations_inside_finite by (auto simp: valid_input_def)
  from a ds(1) have rep: "\<forall>d \<in> set ds. rnd d = Finite d"
    by (auto simp: list_all_iff representable_def)
  from a ds(1) have len: "length ds = length intensities" and w: "\<forall>w \<in> set intensities. 1 \<le> unat w"
    by (auto simp: valid_input_def list_all_iff intensity_inside_def)
  from a have m: "monotone_rounding rnd" by simp
  from ds(2) rep have d: "\<forall>d \<in> set ds. 0 \<le> d \<and> rnd d = Finite d" by simp
  from analyze_Inr_fields [of rnd durations intensities restDurations r] a ds(1)
  have f: "totalActiveTime r = accumulate rnd (Finite 0) (map Finite ds)"
    "weighted_sum rnd of_uint8 (Finite 0) (map Finite ds) intensities = Inr (totalWorkVolume r)"
    by simp_all
  from sums_ordered [OF m len d w, of "Finite 0" "Finite 0"] f
  show "dle (totalActiveTime r) (totalWorkVolume r)" by auto
  show "\<exists>t v. totalActiveTime r = Finite t \<and> totalWorkVolume r = Finite v \<and> t \<le> v"
    if "\<forall>x. rnd x \<noteq> PosInf"
    using sums_ordered_finite [OF m that len d w, of 0 0] f by auto
next
  assume a: "list_all (representable binary64) durations \<and>
      valid_input durations intensities \<and>
      analyze binary64 durations intensities restDurations = Inr r''"
  then obtain ds where ds: "durations = map Finite ds" "\<forall>d \<in> set ds. 0 \<le> d \<and> d \<le> 86400"
    using durations_inside_finite by (auto simp: valid_input_def)
  from a ds(1) have rep: "\<forall>d \<in> set ds. binary64 d = Finite d"
    by (auto simp: list_all_iff representable_def)
  from a ds(1) have len: "length ds = length intensities"
    and w: "\<forall>w \<in> set intensities. 1 \<le> unat w \<and> unat w \<le> 5"
    by (auto simp: valid_input_def list_all_iff intensity_inside_def)
  from ds(2) rep have d: "\<forall>d \<in> set ds. 0 \<le> d \<and> d \<le> 86400 \<and> binary64 d = Finite d" by simp
  from analyze_Inr_fields [of binary64 durations intensities restDurations r''] a ds(1)
  have f: "totalActiveTime r'' = accumulate binary64 (Finite 0) (map Finite ds)"
    "weighted_sum binary64 of_uint8 (Finite 0) (map Finite ds) intensities = Inr (totalWorkVolume r'')"
    by simp_all
  from sums_ordered_binary64 [OF len d w, of 0 0] f
  show "\<exists>t v. totalActiveTime r'' = Finite t \<and> totalWorkVolume r'' = Finite v \<and> t \<le> v"
    by auto
next
  assume a: "valid_input durations intensities \<and>
      analyze exact durations intensities restDurations = Inr r'"
  then obtain ds where ds: "durations = map Finite ds" "\<forall>d \<in> set ds. 0 \<le> d \<and> d \<le> 86400"
    using durations_inside_finite by (auto simp: valid_input_def)
  from a ds(1) have len: "length ds = length intensities"
    and w: "\<forall>w \<in> set intensities. 1 \<le> unat w \<and> unat w \<le> 5"
    by (auto simp: valid_input_def list_all_iff intensity_inside_def)
  from sums_exact [of ds intensities 0 0] len ds(2) w
  obtain t v where tv: "accumulate exact (Finite 0) (map Finite ds) = Finite t"
    "weighted_sum exact of_uint8 (Finite 0) (map Finite ds) intensities = Inr (Finite v)"
    "t \<le> v" "v \<le> 5 * t"
    by auto
  from analyze_Inr_fields [of exact durations intensities restDurations r'] a ds(1) tv(1,2)
  have "totalActiveTime r' = Finite t" "totalWorkVolume r' = Finite v" by simp_all
  with tv(3,4)
  show "\<exists>t v. totalActiveTime r' = Finite t \<and> totalWorkVolume r' = Finite v \<and> t \<le> v \<and> v \<le> 5 * t"
    by blast
qed

theorem work_volume_bounds_witness:
  "monotone_rounding binary64 \<and>
   list_all (representable binary64) [Finite 1, Finite (1 / 2 ^ 53)] \<and>
   valid_input [Finite 1, Finite (1 / 2 ^ 53)] [5, 5] \<and>
   (\<exists>r t v. analyze binary64 [Finite 1, Finite (1 / 2 ^ 53)] [5, 5] [] = Inr r \<and>
      dle (totalActiveTime r) (totalWorkVolume r) \<and>
      totalActiveTime r = Finite t \<and> totalWorkVolume r = Finite v \<and> t \<le> v) \<and>
   monotone_rounding exact \<and> (\<forall>x. exact x \<noteq> PosInf) \<and>
   list_all (representable exact) [Finite 1, Finite (1 / 2 ^ 53)] \<and>
   (\<exists>r t v. analyze exact [Finite 1, Finite (1 / 2 ^ 53)] [5, 5] [] = Inr r \<and>
      totalActiveTime r = Finite t \<and> totalWorkVolume r = Finite v \<and> t \<le> v \<and> v \<le> 5 * t)"
proof -
  let ?d = "[Finite 1, Finite (1 / 2 ^ 53)]"
  let ?i = "[5, 5] :: 8 word list"
  have ws: "\<exists>v. weighted_sum rnd of_uint8 (Finite 0) ?d ?i = Inr v" for rnd
    by (rule weighted_sum_returns) simp
  have an: "\<exists>r. analyze rnd ?d ?i [] = Inr r" for rnd
  proof -
    obtain x where x: "calculateWorkRestRatio rnd ?d [] = Inr x"
      using calculateWorkRestRatio_no_rest by blast
    from ws obtain v where v: "weighted_sum rnd of_uint8 (Finite 0) ?d ?i = Inr v" by blast
    from analyze_fields [OF tiny_validate x v] show ?thesis by auto
  qed
  from an obtain r where r: "analyze binary64 ?d ?i [] = Inr r" by blast
  from an obtain r' where r': "analyze exact ?d ?i [] = Inr r'" by blast
  have e: "\<forall>x. exact x \<noteq> PosInf" "list_all (representable exact) ?d"
    by (simp_all add: exact_def representable_def)
  from work_volume_bounds [of binary64 ?d ?i "[]" r r r'] r r' tiny_input monotone_rounding_binary64
  have 1: "\<exists>r t v. analyze binary64 ?d ?i [] = Inr r \<and>
      dle (totalActiveTime r) (totalWorkVolume r) \<and>
      totalActiveTime r = Finite t \<and> totalWorkVolume r = Finite v \<and> t \<le> v"
    by blast
  from work_volume_bounds [of exact ?d ?i "[]" r' r r'] r' tiny_input
  have 2: "\<exists>r t v. analyze exact ?d ?i [] = Inr r \<and>
      totalActiveTime r = Finite t \<and> totalWorkVolume r = Finite v \<and> t \<le> v \<and> v \<le> 5 * t"
    by blast
  from 1 2 e tiny_input monotone_rounding_binary64 monotone_rounding_exact show ?thesis
    by blast
qed
end
